theory Spec2Isabelle
  imports Main "HOL-Library.Multiset"
begin

section \<open>The syntax tree consumed by the planner\<close>

text \<open>
  Modelled from the spec: the node types of the SQL parser package (\<^verbatim>\<open>sqlparser\<close>), which
  the planner imports and which is not part of \<^verbatim>\<open>src/planner/expr.go\<close>. The spec's data
  model lists AndExpr, ParenExpr, ComparisonExpr (operator, left, right), the column
  reference (optional table qualifier, column name), the literal value, the function call
  (name, distinct flag, argument list), Subquery, the GROUP_CONCAT call and the star
  projection; the remaining constructors are the parser's other expression kinds, kept so
  that "any other node" in the planner's type switches ranges over more than the kinds it
  names. Identifiers (\<^verbatim>\<open>ColIdent\<close>, \<^verbatim>\<open>TableIdent\<close>) are their strings: the planner reads them
  only through \<^verbatim>\<open>String()\<close>.
\<close>

datatype ValType = StrVal | IntVal | FloatVal | HexNum | HexVal | ValArg

text \<open>\<^verbatim>\<open>TableName{Name, Qualifier}\<close>, \<^verbatim>\<open>ColName{Name, Qualifier}\<close>, \<^verbatim>\<open>SQLVal{Type, Val}\<close> and
  \<^verbatim>\<open>Subquery{Select}\<close> are the structs behind the pointer types \<^verbatim>\<open>*ColName\<close>, \<^verbatim>\<open>*SQLVal\<close> and
  \<^verbatim>\<open>*Subquery\<close> that the planner obtains by type assertion. The statement inside a subquery
  is opaque here (its text).\<close>

datatype TableName = TableName string string

datatype ColName = ColName string TableName

datatype SQLVal = SQLVal ValType string

datatype Subquery = Subquery string

text \<open>The interface \<^verbatim>\<open>Expr\<close>. An interface value may be \<^verbatim>\<open>nil\<close>: that is \<open>NilExpr\<close>.
  The interface \<^verbatim>\<open>SelectExpr\<close> has the three implementations \<^verbatim>\<open>*StarExpr\<close>,
  \<^verbatim>\<open>*AliasedExpr\<close> and \<^verbatim>\<open>Nextval\<close>.\<close>

datatype Expr =
    NilExpr
  | AndExpr Expr Expr
  | OrExpr Expr Expr
  | NotExpr Expr
  | ParenExpr Expr
  | ComparisonExpr string Expr Expr Expr
  | RangeCond string Expr Expr Expr
  | IsExpr string Expr
  | ExistsExpr Subquery
  | SQLValExpr SQLVal
  | NullVal
  | BoolVal bool
  | ColNameExpr ColName
  | ValTuple "Expr list"
  | SubqueryExpr Subquery
  | ListArg string
  | BinaryExpr string Expr Expr
  | UnaryExpr string Expr
  | IntervalExpr Expr string
  | CollateExpr Expr string
  | FuncExpr string string bool "SelectExpr list"
  | CaseExpr Expr "When list" Expr
  | ConvertExpr Expr string
  | ConvertUsingExpr Expr string
  | MatchExpr "SelectExpr list" Expr string
  | GroupConcatExpr string "SelectExpr list" "Order list" string
  | Default string
and SelectExpr =
    StarExpr TableName
  | AliasedExpr Expr string
  | Nextval Expr
and When = When Expr Expr
and Order = Order Expr string

text \<open>\<^verbatim>\<open>ComparisonExpr\<close> is (Operator, Left, Right, Escape); \<^verbatim>\<open>FuncExpr\<close> is (Qualifier,
  Name, Distinct, Exprs); \<^verbatim>\<open>AliasedExpr\<close> is (Expr, As); \<^verbatim>\<open>GroupConcatExpr\<close> is (Distinct,
  Exprs, OrderBy, Separator).\<close>

datatype Where = Where string Expr

datatype UpdateExpr = UpdateExpr ColName Expr

definition EqualStr :: string where
  "EqualStr = ''=''"

subsection \<open>Type assertions\<close>

text \<open>A Go type assertion \<^verbatim>\<open>v, ok := node.(*T)\<close> is an option: \<open>None\<close> is \<^verbatim>\<open>ok == false\<close>.\<close>

fun asComparisonExpr :: "Expr \<Rightarrow> (string \<times> Expr \<times> Expr \<times> Expr) option" where
  "asComparisonExpr (ComparisonExpr operator left right escape) = Some (operator, left, right, escape)"
| "asComparisonExpr _ = None"

fun asSQLVal :: "Expr \<Rightarrow> SQLVal option" where
  "asSQLVal (SQLValExpr v) = Some v"
| "asSQLVal _ = None"

fun asColName :: "Expr \<Rightarrow> ColName option" where
  "asColName (ColNameExpr c) = Some c"
| "asColName _ = None"

section \<open>The planner's expression helpers (src/planner/expr.go)\<close>

subsection \<open>splitAndExpression, skipParenthesis\<close>

fun splitAndExpression :: "Expr list \<Rightarrow> Expr \<Rightarrow> Expr list" where
  "splitAndExpression filters NilExpr = filters"
| "splitAndExpression filters (AndExpr left right) =
     splitAndExpression (splitAndExpression filters left) right"
| "splitAndExpression filters (ParenExpr (AndExpr left right)) =
     splitAndExpression filters (AndExpr left right)"
| "splitAndExpression filters node = filters @ [node]"

fun skipParenthesis :: "Expr \<Rightarrow> Expr" where
  "skipParenthesis (ParenExpr e) = skipParenthesis e"
| "skipParenthesis node = node"

subsection \<open>nameMatch, getDMLRouting\<close>

fun nameMatch :: "Expr \<Rightarrow> string \<Rightarrow> string \<Rightarrow> bool" where
  "nameMatch node table shardkey =
     (case asColName node of
        None \<Rightarrow> False
      | Some (ColName name (TableName qualifierName _)) \<Rightarrow>
          (qualifierName = '''' \<or> qualifierName = table) \<and> name = shardkey)"

text \<open>The router is a collaborator: \<open>Lookup\<close> stands for \<^verbatim>\<open>router.Lookup\<close>, and the result
  of \<open>getDMLRouting\<close> is whatever that call returns (segments or its error). The loop over
  the filters falls through to the unbounded lookup of the function's last line.\<close>

fun getDMLRouting_filters ::
  "(string \<Rightarrow> string \<Rightarrow> SQLVal option \<Rightarrow> SQLVal option \<Rightarrow> 'r) \<Rightarrow>
   string \<Rightarrow> string \<Rightarrow> string \<Rightarrow> Expr list \<Rightarrow> 'r" where
  "getDMLRouting_filters Lookup database table shardkey [] = Lookup database table None None"
| "getDMLRouting_filters Lookup database table shardkey (filter0 # filters) =
     (case asComparisonExpr (skipParenthesis filter0) of
        None \<Rightarrow> getDMLRouting_filters Lookup database table shardkey filters
      | Some (operator, left, right, escape) \<Rightarrow>
          if operator = EqualStr \<and> nameMatch left table shardkey then
            (case asSQLVal right of
               Some sqlval \<Rightarrow> Lookup database table (Some sqlval) (Some sqlval)
             | None \<Rightarrow> getDMLRouting_filters Lookup database table shardkey filters)
          else getDMLRouting_filters Lookup database table shardkey filters)"

fun getDMLRouting ::
  "(string \<Rightarrow> string \<Rightarrow> SQLVal option \<Rightarrow> SQLVal option \<Rightarrow> 'r) \<Rightarrow>
   string \<Rightarrow> string \<Rightarrow> string \<Rightarrow> Where option \<Rightarrow> 'r" where
  "getDMLRouting Lookup database table shardkey None = Lookup database table None None"
| "getDMLRouting Lookup database table shardkey (Some (Where ty e)) =
     (if shardkey \<noteq> '''' then
        getDMLRouting_filters Lookup database table shardkey (splitAndExpression [] e)
      else Lookup database table None None)"

subsection \<open>isShardKeyChanging\<close>

fun isShardKeyChanging :: "UpdateExpr list \<Rightarrow> string \<Rightarrow> bool" where
  "isShardKeyChanging [] shardkey = False"
| "isShardKeyChanging (UpdateExpr (ColName name qualifier) e # exprs) shardkey =
     (if shardkey = name then True else isShardKeyChanging exprs shardkey)"

section \<open>What the planner calls in the parser package\<close>

type_synonym error = string

text \<open>
  Modelled from the spec: the serializer (\<^verbatim>\<open>Format\<close> into a buffer, then \<^verbatim>\<open>String()\<close>), the
  classification \<^verbatim>\<open>FuncExpr.IsAggregate\<close> and the walk belong to the parser package. The
  spec speaks of "the serialized text" and of a function "classified as an aggregate"
  without fixing either, and of a walk of the expression tree without fixing in which
  order the children of one node are walked. So they are parameters: every theorem below
  holds for any serializer, any classification (by function name) and any order among the
  children of a node (\<open>WalkOrder\<close>).
\<close>

record sqlparser =
  IsAggregate :: "string \<Rightarrow> bool"
  String_Expr :: "Expr \<Rightarrow> string"
  String_SelectExpr :: "SelectExpr \<Rightarrow> string"
  String_SelectExprs :: "SelectExpr list \<Rightarrow> string"
  WalkOrder :: "Expr \<Rightarrow> Expr list"

subsection \<open>Walk\<close>

text \<open>
  Modelled from the spec: \<^verbatim>\<open>sqlparser.Walk(visit, nodes...)\<close>, the walk with early abort of
  the spec's design notes, which reaches every node of the expression tree (the spec's
  "every column reference", "anywhere in the expression"). Each node that is not nil is
  handed to the visitor; an error stops the walk at once; when the visitor answers
  "continue" the node's \<^verbatim>\<open>WalkSubtree\<close> walks the node's children, and after them the
  remaining nodes.

  \<open>children\<close> lists the expression nodes directly below a node, by the fields of its
  struct. \<open>WalkSubtree\<close> hands them to the walk in the order \<open>WalkOrder\<close> gives for the node,
  whenever that is an arrangement of these children, and as listed otherwise: whatever the
  parameter, the children of a node are walked, each once, in some order.

  The wrappers between expression nodes (select-expression lists and items, WHEN clauses,
  ORDER BY items, identifiers) are nodes too, but the planner's visitors switch on
  expression kinds only and answer \<^verbatim>\<open>true, nil\<close> on anything else, so a visitor here is a
  function of expression nodes.

  The visitor of \<open>parserSelectExpr\<close> compares the node it is handed with the root by
  pointer (\<^verbatim>\<open>node != expr.Expr\<close>). In a tree no node is shared, so the root's pointer is met
  once, at the root: the walk tells the visitor whether the node is the root.

  The statement inside a subquery is not walked into: both visitors of the planner stop at
  the Subquery node.
\<close>

fun selectExprChildren :: "SelectExpr \<Rightarrow> Expr list" where
  "selectExprChildren (StarExpr t) = []"
| "selectExprChildren (AliasedExpr e as) = [e]"
| "selectExprChildren (Nextval e) = [e]"

fun whenChildren :: "When \<Rightarrow> Expr list" where
  "whenChildren (When c v) = [c, v]"

fun orderChildren :: "Order \<Rightarrow> Expr list" where
  "orderChildren (Order e d) = [e]"

fun children :: "Expr \<Rightarrow> Expr list" where
  "children (AndExpr l r) = [l, r]"
| "children (OrExpr l r) = [l, r]"
| "children (NotExpr e) = [e]"
| "children (ParenExpr e) = [e]"
| "children (ComparisonExpr operator l r escape) = [l, r, escape]"
| "children (RangeCond operator l from to) = [l, from, to]"
| "children (IsExpr operator e) = [e]"
| "children (ExistsExpr sq) = [SubqueryExpr sq]"
| "children (ValTuple es) = es"
| "children (BinaryExpr operator l r) = [l, r]"
| "children (UnaryExpr operator e) = [e]"
| "children (IntervalExpr e u) = [e]"
| "children (CollateExpr e c) = [e]"
| "children (FuncExpr q n d exprs) = concat (map selectExprChildren exprs)"
| "children (CaseExpr e whens els) = e # concat (map whenChildren whens) @ [els]"
| "children (ConvertExpr e t) = [e]"
| "children (ConvertUsingExpr e t) = [e]"
| "children (MatchExpr columns e opt) = concat (map selectExprChildren columns) @ [e]"
| "children (GroupConcatExpr d exprs orderBy sep) =
     concat (map selectExprChildren exprs) @ concat (map orderChildren orderBy)"
| "children _ = []"

definition walkWeight :: "Expr \<Rightarrow> nat" where
  "walkWeight e = 8 * size e + (case e of ExistsExpr _ \<Rightarrow> 2 | _ \<Rightarrow> 1)"

lemma walkWeight_le: "walkWeight e \<le> 8 * size e + 2"
  by (cases e) (simp_all add: walkWeight_def)

lemma walkWeight_pos: "0 < walkWeight e"
  by (cases e) (simp_all add: walkWeight_def)

lemma walkWeight_selectExprs:
  "sum_list (map walkWeight (concat (map selectExprChildren xs))) \<le> 8 * size_list size xs"
proof (induction xs)
  case Nil
  show ?case by simp
next
  case (Cons x xs)
  show ?case
  proof (cases x)
    case (StarExpr t)
    with Cons show ?thesis by simp
  next
    case (AliasedExpr e a)
    with Cons walkWeight_le[of e] show ?thesis by simp
  next
    case (Nextval e)
    with Cons walkWeight_le[of e] show ?thesis by simp
  qed
qed

lemma walkWeight_whens:
  "sum_list (map walkWeight (concat (map whenChildren xs))) \<le> 8 * size_list size xs"
proof (induction xs)
  case Nil
  show ?case by simp
next
  case (Cons x xs)
  show ?case
  proof (cases x)
    case (When c v)
    with Cons walkWeight_le[of c] walkWeight_le[of v] show ?thesis by simp
  qed
qed

lemma walkWeight_orders:
  "sum_list (map walkWeight (concat (map orderChildren xs))) \<le> 8 * size_list size xs"
proof (induction xs)
  case Nil
  show ?case by simp
next
  case (Cons x xs)
  show ?case
  proof (cases x)
    case (Order e d)
    with Cons walkWeight_le[of e] show ?thesis by simp
  qed
qed

lemma walkWeight_exprs: "sum_list (map walkWeight xs) \<le> 8 * size_list size xs"
proof (induction xs)
  case Nil
  show ?case by simp
next
  case (Cons x xs)
  with walkWeight_le[of x] show ?case by simp
qed

lemma walkWeight_children: "sum_list (map walkWeight (children e)) < walkWeight e"
proof (cases e)
  case (ValTuple es)
  with walkWeight_exprs[of es] show ?thesis by (simp add: walkWeight_def)
next
  case (FuncExpr q n d exprs)
  with walkWeight_selectExprs[of exprs] show ?thesis by (simp add: walkWeight_def)
next
  case (CaseExpr c whens els)
  with walkWeight_whens[of whens] walkWeight_le[of c] walkWeight_le[of els] show ?thesis
    by (simp add: walkWeight_def)
next
  case (MatchExpr cols m opt)
  with walkWeight_selectExprs[of cols] walkWeight_le[of m] show ?thesis
    by (simp add: walkWeight_def)
next
  case (GroupConcatExpr d exprs ob sep)
  with walkWeight_selectExprs[of exprs] walkWeight_orders[of ob] show ?thesis
    by (simp add: walkWeight_def)
next
  case (ComparisonExpr operator l r escape)
  with walkWeight_le[of l] walkWeight_le[of r] walkWeight_le[of escape] show ?thesis
    by (simp add: walkWeight_def)
next
  case (RangeCond operator l f t)
  with walkWeight_le[of l] walkWeight_le[of f] walkWeight_le[of t] show ?thesis
    by (simp add: walkWeight_def)
next
  case (AndExpr l r)
  with walkWeight_le[of l] walkWeight_le[of r] show ?thesis by (simp add: walkWeight_def)
next
  case (OrExpr l r)
  with walkWeight_le[of l] walkWeight_le[of r] show ?thesis by (simp add: walkWeight_def)
next
  case (BinaryExpr operator l r)
  with walkWeight_le[of l] walkWeight_le[of r] show ?thesis by (simp add: walkWeight_def)
next
  case (NotExpr x)
  with walkWeight_le[of x] show ?thesis by (simp add: walkWeight_def)
next
  case (ParenExpr x)
  with walkWeight_le[of x] show ?thesis by (simp add: walkWeight_def)
next
  case (IsExpr operator x)
  with walkWeight_le[of x] show ?thesis by (simp add: walkWeight_def)
next
  case (UnaryExpr operator x)
  with walkWeight_le[of x] show ?thesis by (simp add: walkWeight_def)
next
  case (IntervalExpr x u)
  with walkWeight_le[of x] show ?thesis by (simp add: walkWeight_def)
next
  case (CollateExpr x u)
  with walkWeight_le[of x] show ?thesis by (simp add: walkWeight_def)
next
  case (ConvertExpr x u)
  with walkWeight_le[of x] show ?thesis by (simp add: walkWeight_def)
next
  case (ConvertUsingExpr x u)
  with walkWeight_le[of x] show ?thesis by (simp add: walkWeight_def)
qed (simp_all add: walkWeight_def)

definition WalkSubtree :: "sqlparser \<Rightarrow> Expr \<Rightarrow> Expr list" where
  "WalkSubtree P node =
     (if mset (WalkOrder P node) = mset (children node) then WalkOrder P node
      else children node)"

lemma mset_WalkSubtree: "mset (WalkSubtree P node) = mset (children node)"
  by (simp add: WalkSubtree_def)

lemma sum_list_map_mset:
  "mset xs = mset ys \<Longrightarrow> sum_list (map f xs) = sum_list (map (f :: 'a \<Rightarrow> nat) ys)"
proof -
  assume "mset xs = mset ys"
  then have "mset (map f xs) = mset (map f ys)" by (metis mset_map)
  then have "sum_mset (mset (map f xs)) = sum_mset (mset (map f ys))" by simp
  then show ?thesis by (simp only: sum_mset_sum_list)
qed

lemma walkWeight_WalkSubtree: "sum_list (map walkWeight (WalkSubtree P node)) < walkWeight node"
  using sum_list_map_mset[OF mset_WalkSubtree, of walkWeight P node] walkWeight_children[of node]
  by simp

type_synonym 's Visit = "bool \<Rightarrow> Expr \<Rightarrow> 's \<Rightarrow> (bool \<times> error option) \<times> 's"

function Walk :: "sqlparser \<Rightarrow> 's Visit \<Rightarrow> bool \<Rightarrow> Expr list \<Rightarrow> 's \<Rightarrow> error option \<times> 's" where
  "Walk P visit atRoot [] s = (None, s)"
| "Walk P visit atRoot (node # nodes) s =
     (if node = NilExpr then Walk P visit atRoot nodes s
      else case visit atRoot node s of
          ((kontinue, Some err), s') \<Rightarrow> (Some err, s')
        | ((kontinue, None), s') \<Rightarrow>
            if kontinue then
              (case Walk P visit False (WalkSubtree P node) s' of
                 (Some err, s'') \<Rightarrow> (Some err, s'')
               | (None, s'') \<Rightarrow> Walk P visit atRoot nodes s'')
            else Walk P visit atRoot nodes s')"
  by pat_completeness auto
termination
  by (relation "measure (\<lambda>(P, visit, atRoot, nodes, s). sum_list (map walkWeight nodes))")
     (auto simp: walkWeight_pos trans_less_add1[OF walkWeight_WalkSubtree])

subsection \<open>hasSubquery (src/planner/expr.go)\<close>

text \<open>The closure assigns the variable \<open>has\<close>, the state of the walk; the error it returns
  only stops the walk and is dropped.\<close>

fun hasSubquery_visit :: "bool Visit" where
  "hasSubquery_visit atRoot (SubqueryExpr sq) has = ((False, Some ''dummy''), True)"
| "hasSubquery_visit atRoot node has = ((True, None), has)"

definition hasSubquery :: "sqlparser \<Rightarrow> Expr \<Rightarrow> bool" where
  "hasSubquery P node = snd (Walk P hasSubquery_visit True [node] False)"

section \<open>Comparison check and select tuples (src/planner/expr.go)\<close>

subsection \<open>checkComparison\<close>

fun checkComparison_filters :: "sqlparser \<Rightarrow> Expr list \<Rightarrow> error option" where
  "checkComparison_filters P [] = None"
| "checkComparison_filters P (filter0 # filters) =
     (case asComparisonExpr filter0 of
        None \<Rightarrow> checkComparison_filters P filters
      | Some (operator, left, right, escape) \<Rightarrow>
          (case asSQLVal right of
             None \<Rightarrow>
               Some (''unsupported: ['' @ String_Expr P (ComparisonExpr operator left right escape)
                     @ ''].must.be.value.compare'')
           | Some sqlval \<Rightarrow> checkComparison_filters P filters))"

definition checkComparison :: "sqlparser \<Rightarrow> Expr \<Rightarrow> error option" where
  "checkComparison P e = checkComparison_filters P (splitAndExpression [] e)"

subsection \<open>selectTuple, parserSelectExpr\<close>

record selectTuple =
  expr :: SelectExpr
  field :: string
  referTables :: "string list"
  aggrFuc :: string
  aggrField :: string
  distinct' :: bool

text \<open>The variables of \<open>parserSelectExpr\<close> that its visitor closure assigns.\<close>

record parserVars =
  var_funcName :: string
  var_aggrField :: string
  var_distinct :: bool
  var_referTables :: "string list"

fun parserSelectExpr_visit :: "sqlparser \<Rightarrow> string \<Rightarrow> parserVars Visit" where
  "parserSelectExpr_visit P fld atRoot (ColNameExpr (ColName name (TableName tableName q))) s =
     (if tableName = '''' then ((True, None), s)
      else if tableName \<in> set (var_referTables s) then ((True, None), s)
      else ((True, None), s\<lparr>var_referTables := var_referTables s @ [tableName]\<rparr>))"
| "parserSelectExpr_visit P fld atRoot (FuncExpr q name d exprs) s =
     (let s1 = s\<lparr>var_distinct := d\<rparr> in
      if IsAggregate P name then
        if \<not> atRoot then
          ((False, Some (''unsupported: '' @ [CHR 0x27] @ fld @ [CHR 0x27]
                         @ ''.contain.aggregate.in.select.exprs'')), s1)
        else
          let s2 = s1\<lparr>var_funcName := name\<rparr> in
          if length exprs \<noteq> 1 then
            ((False, Some (''unsupported: invalid.use.of.group.function['' @ name @ '']'')), s2)
          else
            let s3 = s2\<lparr>var_aggrField := String_SelectExprs P exprs\<rparr> in
            if var_aggrField s3 = ''*'' \<and> name \<noteq> ''count'' then
              ((False, Some (''unsupported: syntax.error.at.'' @ [CHR 0x27] @ fld @ [CHR 0x27])), s3)
            else ((True, None), s3)
      else ((True, None), s1))"
| "parserSelectExpr_visit P fld atRoot (GroupConcatExpr d exprs orderBy sep) s =
     ((False, Some ''unsupported: group_concat.in.select.exprs''), s)"
| "parserSelectExpr_visit P fld atRoot (SubqueryExpr sq) s =
     ((False, Some ''unsupported: subqueries.in.select.exprs''), s)"
| "parserSelectExpr_visit P fld atRoot node s = ((True, None), s)"

text \<open>\<open>parserSelectExpr\<close> takes a \<^verbatim>\<open>*AliasedExpr\<close>: its two fields \<open>e\<close> (Expr) and \<open>as\<close> (As).\<close>

definition parserSelectExpr_field :: "sqlparser \<Rightarrow> Expr \<Rightarrow> string \<Rightarrow> string" where
  "parserSelectExpr_field P e as =
     (if as = '''' then
        (case asColName e of
           Some (ColName name q) \<Rightarrow> name
         | None \<Rightarrow> String_SelectExpr P (AliasedExpr e as))
      else as)"

definition parserSelectExpr :: "sqlparser \<Rightarrow> Expr \<Rightarrow> string \<Rightarrow> error + selectTuple" where
  "parserSelectExpr P e as =
     (let fld = parserSelectExpr_field P e as in
      case Walk P (parserSelectExpr_visit P fld) True [e]
             \<lparr>var_funcName = '''', var_aggrField = '''', var_distinct = False, var_referTables = []\<rparr> of
        (Some err, s) \<Rightarrow> Inl err
      | (None, s) \<Rightarrow>
          Inr \<lparr>expr = AliasedExpr e as, field = fld, referTables = var_referTables s,
               aggrFuc = var_funcName s, aggrField = var_aggrField s, distinct' = var_distinct s\<rparr>)"

subsection \<open>parserSelectExprs\<close>

fun parserSelectExprs_loop ::
  "sqlparser \<Rightarrow> selectTuple list \<Rightarrow> SelectExpr list \<Rightarrow> error + selectTuple list" where
  "parserSelectExprs_loop P tuples [] = Inr tuples"
| "parserSelectExprs_loop P tuples (AliasedExpr e as # exprs) =
     (case parserSelectExpr P e as of
        Inl err \<Rightarrow> Inl err
      | Inr tuple \<Rightarrow> parserSelectExprs_loop P (tuples @ [tuple]) exprs)"
| "parserSelectExprs_loop P tuples (StarExpr (TableName name qualifier) # exprs) =
     (let tuple = \<lparr>expr = StarExpr (TableName name qualifier), field = ''*'', referTables = [],
                    aggrFuc = '''', aggrField = '''', distinct' = False\<rparr>;
          tuple = (if name \<noteq> '''' then tuple\<lparr>referTables := referTables tuple @ [name]\<rparr>
                   else tuple)
      in parserSelectExprs_loop P (tuples @ [tuple]) exprs)"
| "parserSelectExprs_loop P tuples (Nextval e # exprs) =
     Inl ''unsupported: nextval.in.select.exprs''"

definition parserSelectExprs :: "sqlparser \<Rightarrow> SelectExpr list \<Rightarrow> error + selectTuple list" where
  "parserSelectExprs P exprs = parserSelectExprs_loop P [] exprs"

subsection \<open>checkInTuple\<close>

fun checkInTuple :: "string \<Rightarrow> string \<Rightarrow> selectTuple list \<Rightarrow> bool" where
  "checkInTuple fld table [] = False"
| "checkInTuple fld table (tuple # tuples) =
     (if field tuple = ''*'' \<or> field tuple = fld then
        if table = '''' \<or> length (referTables tuple) = 0 then True
        else if length (referTables tuple) = 1 \<and> referTables tuple ! 0 = table then True
        else checkInTuple fld table tuples
      else checkInTuple fld table tuples)"

subsection \<open>decomposeAvg\<close>

definition NewValArg :: "string \<Rightarrow> Expr" where
  "NewValArg bytes = SQLValExpr (SQLVal ValArg bytes)"

definition decomposeAvg :: "selectTuple \<Rightarrow> SelectExpr list" where
  "decomposeAvg tuple =
     (let sum = AliasedExpr
                  (FuncExpr '''' ''sum'' False [AliasedExpr (NewValArg (aggrField tuple)) ''''])
                  (field tuple);
          count = AliasedExpr
                  (FuncExpr '''' ''count'' False [AliasedExpr (NewValArg (aggrField tuple)) ''''])
                  ''''
      in [] @ [sum, count])"

section \<open>Notions used to state the properties\<close>

text \<open>Shorthands for the syntax trees of the examples: an unqualified and a qualified column
  reference, an integer and a string literal, an equality comparison without ESCAPE.\<close>

definition col :: "string \<Rightarrow> Expr" where
  "col name = ColNameExpr (ColName name (TableName '''' ''''))"

definition qcol :: "string \<Rightarrow> string \<Rightarrow> Expr" where
  "qcol table name = ColNameExpr (ColName name (TableName table ''''))"

definition intLit :: "string \<Rightarrow> Expr" where
  "intLit digits = SQLValExpr (SQLVal IntVal digits)"

definition strLit :: "string \<Rightarrow> Expr" where
  "strLit text = SQLValExpr (SQLVal StrVal text)"

definition equals :: "Expr \<Rightarrow> Expr \<Rightarrow> Expr" where
  "equals l r = ComparisonExpr ''='' l r NilExpr"

fun isAndExpr :: "Expr \<Rightarrow> bool" where
  "isAndExpr (AndExpr l r) = True"
| "isAndExpr _ = False"

fun isParenAndExpr :: "Expr \<Rightarrow> bool" where
  "isParenAndExpr (ParenExpr e) = isAndExpr e"
| "isParenAndExpr _ = False"

text \<open>A recording router: the call \<open>getDMLRouting\<close> makes, as a value.\<close>

datatype lookupCall = LookupCall string string "SQLVal option" "SQLVal option"

text \<open>The routing predicate in the spec's words: a node that is an equality comparison whose
  left side is a column reference named like the routing key, unqualified or qualified by
  the table, and whose right side is a literal; the result is that literal. The first
  conjunct of a list that is one.\<close>

fun keyEquality :: "string \<Rightarrow> string \<Rightarrow> Expr \<Rightarrow> SQLVal option" where
  "keyEquality table key
     (ComparisonExpr operator (ColNameExpr (ColName name (TableName qualifier q))) (SQLValExpr v) escape) =
     (if operator = ''='' \<and> name = key \<and> (qualifier = '''' \<or> qualifier = table)
      then Some v else None)"
| "keyEquality table key node = None"

fun firstKeyEquality :: "string \<Rightarrow> string \<Rightarrow> Expr list \<Rightarrow> SQLVal option" where
  "firstKeyEquality table key [] = None"
| "firstKeyEquality table key (c # cs) =
     (case keyEquality table key c of
        Some v \<Rightarrow> Some v
      | None \<Rightarrow> firstKeyEquality table key cs)"

text \<open>The key of the lookup: none when the routing key name is empty or the where clause
  absent, else the literal of the first conjunct that is such an equality once its
  enclosing parentheses are removed.\<close>

definition routingKey :: "string \<Rightarrow> string \<Rightarrow> Where option \<Rightarrow> SQLVal option" where
  "routingKey table shardkey wh =
     (case wh of
        None \<Rightarrow> None
      | Some (Where ty e) \<Rightarrow>
          if shardkey = '''' then None
          else firstKeyEquality table shardkey (map skipParenthesis (splitAndExpression [] e)))"

text \<open>\<open>parens n e\<close> is \<open>e\<close> inside \<open>n\<close> pairs of parentheses.\<close>

fun parens :: "nat \<Rightarrow> Expr \<Rightarrow> Expr" where
  "parens 0 e = e"
| "parens (Suc n) e = ParenExpr (parens n e)"

text \<open>A comparison node whose right-hand operand is not a literal.\<close>

fun nonValueComparison :: "Expr \<Rightarrow> bool" where
  "nonValueComparison (ComparisonExpr operator l (SQLValExpr v) escape) = False"
| "nonValueComparison (ComparisonExpr operator l r escape) = True"
| "nonValueComparison _ = False"

text \<open>The target column name of an update assignment.\<close>

fun assignmentName :: "UpdateExpr \<Rightarrow> string" where
  "assignmentName (UpdateExpr (ColName name qualifier) e) = name"

text \<open>A select tuple with a field name and referred tables, nothing else set.\<close>

definition tuple0 :: "string \<Rightarrow> string list \<Rightarrow> selectTuple" where
  "tuple0 fld tables =
     \<lparr>expr = AliasedExpr NilExpr '''', field = fld, referTables = tables,
      aggrFuc = '''', aggrField = '''', distinct' = False\<rparr>"

text \<open>The expression nodes of a tree that are not nil, the root first, each once for each
  place it stands at: what an expression contains. The definition follows the syntax tree
  alone, not the walk.\<close>

fun exprNodes :: "Expr \<Rightarrow> Expr list"
  and selectExprNodes :: "SelectExpr \<Rightarrow> Expr list"
  and whenNodes :: "When \<Rightarrow> Expr list"
  and orderNodes :: "Order \<Rightarrow> Expr list" where
  "exprNodes NilExpr = []"
| "exprNodes (AndExpr l r) = AndExpr l r # exprNodes l @ exprNodes r"
| "exprNodes (OrExpr l r) = OrExpr l r # exprNodes l @ exprNodes r"
| "exprNodes (NotExpr e) = NotExpr e # exprNodes e"
| "exprNodes (ParenExpr e) = ParenExpr e # exprNodes e"
| "exprNodes (ComparisonExpr operator l r escape) =
     ComparisonExpr operator l r escape # exprNodes l @ exprNodes r @ exprNodes escape"
| "exprNodes (RangeCond operator l from to) =
     RangeCond operator l from to # exprNodes l @ exprNodes from @ exprNodes to"
| "exprNodes (IsExpr operator e) = IsExpr operator e # exprNodes e"
| "exprNodes (ExistsExpr sq) = [ExistsExpr sq, SubqueryExpr sq]"
| "exprNodes (SQLValExpr v) = [SQLValExpr v]"
| "exprNodes NullVal = [NullVal]"
| "exprNodes (BoolVal b) = [BoolVal b]"
| "exprNodes (ColNameExpr c) = [ColNameExpr c]"
| "exprNodes (ValTuple es) = ValTuple es # concat (map exprNodes es)"
| "exprNodes (SubqueryExpr sq) = [SubqueryExpr sq]"
| "exprNodes (ListArg a) = [ListArg a]"
| "exprNodes (BinaryExpr operator l r) = BinaryExpr operator l r # exprNodes l @ exprNodes r"
| "exprNodes (UnaryExpr operator e) = UnaryExpr operator e # exprNodes e"
| "exprNodes (IntervalExpr e u) = IntervalExpr e u # exprNodes e"
| "exprNodes (CollateExpr e c) = CollateExpr e c # exprNodes e"
| "exprNodes (FuncExpr q n d exprs) = FuncExpr q n d exprs # concat (map selectExprNodes exprs)"
| "exprNodes (CaseExpr e whens els) =
     CaseExpr e whens els # exprNodes e @ concat (map whenNodes whens) @ exprNodes els"
| "exprNodes (ConvertExpr e t) = ConvertExpr e t # exprNodes e"
| "exprNodes (ConvertUsingExpr e t) = ConvertUsingExpr e t # exprNodes e"
| "exprNodes (MatchExpr columns e opt) =
     MatchExpr columns e opt # concat (map selectExprNodes columns) @ exprNodes e"
| "exprNodes (GroupConcatExpr d exprs orderBy sep) =
     GroupConcatExpr d exprs orderBy sep
       # concat (map selectExprNodes exprs) @ concat (map orderNodes orderBy)"
| "exprNodes (Default c) = [Default c]"
| "selectExprNodes (StarExpr t) = []"
| "selectExprNodes (AliasedExpr e as) = exprNodes e"
| "selectExprNodes (Nextval e) = exprNodes e"
| "whenNodes (When c v) = exprNodes c @ exprNodes v"
| "orderNodes (Order e d) = exprNodes e"

text \<open>The order in which a walk that is never cut short meets the nodes of a forest, each
  with the mark "is the root"; the nodes of an expression in the order of the walk.\<close>

function preorder :: "sqlparser \<Rightarrow> bool \<Rightarrow> Expr list \<Rightarrow> (bool \<times> Expr) list" where
  "preorder P atRoot [] = []"
| "preorder P atRoot (node # nodes) =
     (if node = NilExpr then preorder P atRoot nodes
      else (atRoot, node) # preorder P False (WalkSubtree P node) @ preorder P atRoot nodes)"
  by pat_completeness auto
termination
  by (relation "measure (\<lambda>(P, atRoot, nodes). sum_list (map walkWeight nodes))")
     (auto simp: walkWeight_pos trans_less_add1[OF walkWeight_WalkSubtree])

definition walkedNodes :: "sqlparser \<Rightarrow> Expr \<Rightarrow> Expr list" where
  "walkedNodes P e = map snd (preorder P True [e])"

text \<open>The nodes \<open>parserSelectExpr\<close> must reject, in the spec's words: an aggregate call that
  is not the root, or has not exactly one argument, or whose serialized argument is \<open>*\<close>
  while its name is not \<open>count\<close>; a GROUP_CONCAT call; a subquery. A node of the expression
  \<open>e\<close> is the top-level node exactly when it is \<open>e\<close> itself.\<close>

fun violation :: "sqlparser \<Rightarrow> bool \<Rightarrow> Expr \<Rightarrow> bool" where
  "violation P atRoot (FuncExpr q name d exprs) =
     (IsAggregate P name \<and>
      (\<not> atRoot \<or> length exprs \<noteq> 1 \<or> (String_SelectExprs P exprs = ''*'' \<and> name \<noteq> ''count'')))"
| "violation P atRoot (GroupConcatExpr d exprs orderBy sep) = True"
| "violation P atRoot (SubqueryExpr sq) = True"
| "violation P atRoot node = False"

definition rejected :: "sqlparser \<Rightarrow> Expr \<Rightarrow> Expr \<Rightarrow> bool" where
  "rejected P e node = violation P (node = e) node"

text \<open>The table qualifier of a column reference (none when unqualified); the qualifiers of
  the column references an expression contains; those qualifiers in the order the walk
  meets them; a list with later repetitions dropped.\<close>

fun qualifierOf :: "Expr \<Rightarrow> string list" where
  "qualifierOf (ColNameExpr (ColName name (TableName t q))) = (if t = '''' then [] else [t])"
| "qualifierOf node = []"

definition tableQualifiers :: "Expr \<Rightarrow> string list" where
  "tableQualifiers e = concat (map qualifierOf (exprNodes e))"

definition seenQualifiers :: "sqlparser \<Rightarrow> Expr \<Rightarrow> string list" where
  "seenQualifiers P e = concat (map qualifierOf (walkedNodes P e))"

fun firstSeen :: "string list \<Rightarrow> string list" where
  "firstSeen [] = []"
| "firstSeen (x # xs) = x # removeAll x (firstSeen xs)"

text \<open>What the spec says of the tuple of one select item: its field; its referred tables,
  which are the table qualifiers the expression contains, each once, in the order the walk
  first meets them.\<close>

fun itemTuple :: "sqlparser \<Rightarrow> SelectExpr \<Rightarrow> selectTuple \<Rightarrow> bool" where
  "itemTuple P (AliasedExpr e as) t =
     (field t = (if as \<noteq> '''' then as
                 else case e of
                        ColNameExpr (ColName name q) \<Rightarrow> name
                      | _ \<Rightarrow> String_SelectExpr P (AliasedExpr e as))
      \<and> set (referTables t) = set (tableQualifiers e)
      \<and> distinct (referTables t)
      \<and> referTables t = firstSeen (seenQualifiers P e))"
| "itemTuple P (StarExpr (TableName name q)) t =
     (field t = ''*'' \<and> referTables t = (if name = '''' then [] else [name]))"
| "itemTuple P (Nextval e) t = False"

fun accepted :: "sqlparser \<Rightarrow> SelectExpr \<Rightarrow> bool" where
  "accepted P (AliasedExpr e as) = (\<not> list_ex (rejected P e) (exprNodes e))"
| "accepted P (StarExpr t) = True"
| "accepted P (Nextval e) = False"

subsection \<open>Instances of the parser package's parameters\<close>

text \<open>For the examples only: the node kinds the examples use are printed the way the parser
  package prints them, every other kind as a question mark; five aggregate names; the
  children of a node walked as \<open>children\<close> lists them.\<close>

fun example_String_Expr :: "Expr \<Rightarrow> string"
  and example_String_SelectExpr :: "SelectExpr \<Rightarrow> string"
  and example_String_SelectExprs :: "SelectExpr list \<Rightarrow> string" where
  "example_String_Expr (ColNameExpr (ColName name (TableName t q))) =
     (if t = '''' then name else t @ ''.'' @ name)"
| "example_String_Expr (SQLValExpr (SQLVal ty val)) =
     (if ty = StrVal then [CHR 0x27] @ val @ [CHR 0x27] else val)"
| "example_String_Expr (AndExpr l r) = example_String_Expr l @ '' and '' @ example_String_Expr r"
| "example_String_Expr (ParenExpr e) = ''('' @ example_String_Expr e @ '')''"
| "example_String_Expr (ComparisonExpr operator l r escape) =
     example_String_Expr l @ '' '' @ operator @ '' '' @ example_String_Expr r"
| "example_String_Expr (BinaryExpr operator l r) =
     example_String_Expr l @ '' '' @ operator @ '' '' @ example_String_Expr r"
| "example_String_Expr (FuncExpr q name d exprs) =
     name @ ''('' @ (if d then ''distinct '' else '''') @ example_String_SelectExprs exprs @ '')''"
| "example_String_Expr _ = ''?''"
| "example_String_SelectExpr (StarExpr (TableName t q)) = (if t = '''' then ''*'' else t @ ''.*'')"
| "example_String_SelectExpr (AliasedExpr e as) =
     example_String_Expr e @ (if as = '''' then '''' else '' as '' @ as)"
| "example_String_SelectExpr (Nextval e) = ''next '' @ example_String_Expr e @ '' values''"
| "example_String_SelectExprs [] = ''''"
| "example_String_SelectExprs [x] = example_String_SelectExpr x"
| "example_String_SelectExprs (x # y # ys) =
     example_String_SelectExpr x @ '', '' @ example_String_SelectExprs (y # ys)"

definition exampleParser :: sqlparser where
  "exampleParser =
     \<lparr>IsAggregate = (\<lambda>name. name \<in> set [''avg'', ''count'', ''max'', ''min'', ''sum'']),
      String_Expr = example_String_Expr,
      String_SelectExpr = example_String_SelectExpr,
      String_SelectExprs = example_String_SelectExprs,
      WalkOrder = children\<rparr>"

text \<open>Another order among children, by the names of the struct's fields: Else, Expr, Whens
  for a CASE; From, Left, To for a range; Escape, Left, Right for a comparison. The same
  instance with this order.\<close>

fun fieldNameOrder :: "Expr \<Rightarrow> Expr list" where
  "fieldNameOrder (CaseExpr e whens els) = els # e # concat (map whenChildren whens)"
| "fieldNameOrder (RangeCond operator l from to) = [from, l, to]"
| "fieldNameOrder (ComparisonExpr operator l r escape) = [escape, l, r]"
| "fieldNameOrder node = children node"

definition exampleParserByName :: sqlparser where
  "exampleParserByName = exampleParser\<lparr>WalkOrder := fieldNameOrder\<rparr>"

text \<open>Shorthands for select lists: an aggregate or other function call without qualifier, a
  select item without alias, the unqualified star; the select list of the spec's example
  \<open>count(*), count(distinct x.a) AS cstar, max(x.a) AS mb, t.a AS a1, x.b\<close> and its tuples;
  the tuple fields the examples compare.\<close>

definition aggr :: "string \<Rightarrow> bool \<Rightarrow> SelectExpr list \<Rightarrow> Expr" where
  "aggr name d args = FuncExpr '''' name d args"

definition item :: "Expr \<Rightarrow> SelectExpr" where
  "item e = AliasedExpr e ''''"

definition star :: SelectExpr where
  "star = StarExpr (TableName '''' '''')"

definition exampleSelect :: "SelectExpr list" where
  "exampleSelect =
     [AliasedExpr (aggr ''count'' False [star]) '''',
      AliasedExpr (aggr ''count'' True [item (qcol ''x'' ''a'')]) ''cstar'',
      AliasedExpr (aggr ''max'' False [item (qcol ''x'' ''a'')]) ''mb'',
      AliasedExpr (qcol ''t'' ''a'') ''a1'',
      AliasedExpr (qcol ''x'' ''b'') '''']"

definition summary :: "selectTuple \<Rightarrow> string \<times> string list \<times> string \<times> string \<times> bool" where
  "summary t = (field t, referTables t, aggrFuc t, aggrField t, distinct' t)"

definition exampleTuples :: "selectTuple list" where
  "exampleTuples =
     [\<lparr>expr = AliasedExpr (aggr ''count'' False [star]) '''', field = ''count(*)'',
       referTables = [], aggrFuc = ''count'', aggrField = ''*'', distinct' = False\<rparr>,
      \<lparr>expr = AliasedExpr (aggr ''count'' True [item (qcol ''x'' ''a'')]) ''cstar'', field = ''cstar'',
       referTables = [''x''], aggrFuc = ''count'', aggrField = ''x.a'', distinct' = True\<rparr>,
      \<lparr>expr = AliasedExpr (aggr ''max'' False [item (qcol ''x'' ''a'')]) ''mb'', field = ''mb'',
       referTables = [''x''], aggrFuc = ''max'', aggrField = ''x.a'', distinct' = False\<rparr>,
      \<lparr>expr = AliasedExpr (qcol ''t'' ''a'') ''a1'', field = ''a1'',
       referTables = [''t''], aggrFuc = '''', aggrField = '''', distinct' = False\<rparr>,
      \<lparr>expr = AliasedExpr (qcol ''x'' ''b'') '''', field = ''b'',
       referTables = [''x''], aggrFuc = '''', aggrField = '''', distinct' = False\<rparr>]"

text \<open>The expression \<open>case z.e when x.a then t.b else y.c end\<close>.\<close>

definition exampleCase :: Expr where
  "exampleCase = CaseExpr (qcol ''z'' ''e'') [When (qcol ''x'' ''a'') (qcol ''t'' ''b'')] (qcol ''y'' ''c'')"

section \<open>Decomposition into conjuncts\<close>

lemma splitAndExpression_append_all:
  "\<forall>acc. splitAndExpression acc e = acc @ splitAndExpression [] e"
proof (induction "filters :: Expr list" e rule: splitAndExpression.induct)
  case (2 filters left right)
  show ?case
  proof
    fix acc
    have "splitAndExpression acc (AndExpr left right)
          = splitAndExpression (splitAndExpression acc left) right" by simp
    also have "\<dots> = splitAndExpression acc left @ splitAndExpression [] right"
      using "2.IH"(2) by blast
    also have "\<dots> = acc @ splitAndExpression [] left @ splitAndExpression [] right"
      using "2.IH"(1) by (metis append.assoc)
    also have "splitAndExpression [] left @ splitAndExpression [] right
          = splitAndExpression (splitAndExpression [] left) right"
      using "2.IH"(2) by metis
    finally show "splitAndExpression acc (AndExpr left right)
          = acc @ splitAndExpression [] (AndExpr left right)" by simp
  qed
next
  case (3 filters left right)
  show ?case
  proof
    fix acc
    have "splitAndExpression acc (ParenExpr (AndExpr left right))
          = splitAndExpression acc (AndExpr left right)" by simp
    also have "\<dots> = acc @ splitAndExpression [] (AndExpr left right)"
      using "3.IH" by blast
    finally show "splitAndExpression acc (ParenExpr (AndExpr left right))
          = acc @ splitAndExpression [] (ParenExpr (AndExpr left right))" by simp
  qed
qed simp_all

lemma splitAndExpression_append:
  "splitAndExpression filters e = filters @ splitAndExpression [] e"
  using splitAndExpression_append_all by blast

lemma splitAndExpression_single:
  "node \<noteq> NilExpr \<Longrightarrow> \<not> isAndExpr node \<Longrightarrow> \<not> isParenAndExpr node \<Longrightarrow>
   splitAndExpression filters node = filters @ [node]"
proof (cases node)
  case (ParenExpr e)
  assume "\<not> isParenAndExpr node"
  with ParenExpr show ?thesis by (cases e) simp_all
qed simp_all

text \<open>
  C2. Decomposing \<open>A AND B\<close> gives the conjuncts of \<open>A\<close> followed by those of \<open>B\<close>; a
  parenthesized AND decomposes like the AND inside it; any other node that is not nil
  (a parenthesized expression that is not an AND included) is the single conjunct of its
  decomposition; the absent expression has no conjunct. Decomposition is
  \<open>splitAndExpression\<close> started from the empty (nil) list of filters.
\<close>

theorem splitAndExpression_decompose:
  "splitAndExpression [] (AndExpr A B) = splitAndExpression [] A @ splitAndExpression [] B
   \<and> splitAndExpression [] (ParenExpr (AndExpr A B)) = splitAndExpression [] (AndExpr A B)
   \<and> (node \<noteq> NilExpr \<and> \<not> isAndExpr node \<and> \<not> isParenAndExpr node
        \<longrightarrow> splitAndExpression [] node = [node])
   \<and> splitAndExpression [] NilExpr = []"
proof -
  have "splitAndExpression [] (AndExpr A B) = splitAndExpression (splitAndExpression [] A) B"
    by simp
  then have "splitAndExpression [] (AndExpr A B)
             = splitAndExpression [] A @ splitAndExpression [] B"
    using splitAndExpression_append[of "splitAndExpression [] A" B] by simp
  moreover have "splitAndExpression [] (ParenExpr (AndExpr A B))
                 = splitAndExpression [] (AndExpr A B)"
    by simp
  moreover have "node \<noteq> NilExpr \<and> \<not> isAndExpr node \<and> \<not> isParenAndExpr node
                 \<longrightarrow> splitAndExpression [] node = [node]"
    using splitAndExpression_single[of node "[]"] by simp
  moreover have "splitAndExpression [] NilExpr = []" by simp
  ultimately show ?thesis by blast
qed

text \<open>The where clause \<open>(a = 1 AND (b = 2 AND c = 3)) AND (d = 4)\<close> has four conjuncts, the
  last one still in its parentheses; a doubly parenthesized AND is one conjunct.\<close>

theorem splitAndExpression_decompose_witness:
  "splitAndExpression []
     (AndExpr (AndExpr (equals (col ''a'') (intLit ''1''))
                       (ParenExpr (AndExpr (equals (col ''b'') (intLit ''2''))
                                           (equals (col ''c'') (intLit ''3'')))))
              (ParenExpr (equals (col ''d'') (intLit ''4''))))
   = [equals (col ''a'') (intLit ''1''), equals (col ''b'') (intLit ''2''),
      equals (col ''c'') (intLit ''3''), ParenExpr (equals (col ''d'') (intLit ''4''))]
   \<and> splitAndExpression [] (ParenExpr (ParenExpr (AndExpr (col ''a'') (col ''b''))))
       = [ParenExpr (ParenExpr (AndExpr (col ''a'') (col ''b'')))]"
  using splitAndExpression_decompose
    [of "AndExpr (equals (col ''a'') (intLit ''1''))
                 (ParenExpr (AndExpr (equals (col ''b'') (intLit ''2''))
                                     (equals (col ''c'') (intLit ''3''))))"
        "ParenExpr (equals (col ''d'') (intLit ''4''))"
        "ParenExpr (ParenExpr (AndExpr (col ''a'') (col ''b'')))"]
  by (simp add: equals_def col_def intLit_def)

section \<open>Routing from the where clause\<close>

lemma keyEquality_code:
  "keyEquality table key c =
     (case asComparisonExpr c of
        None \<Rightarrow> None
      | Some (operator, left, right, escape) \<Rightarrow>
          if operator = EqualStr \<and> nameMatch left table key then asSQLVal right else None)"
proof (cases c)
  case (ComparisonExpr operator left right escape)
  show ?thesis
  proof (cases left)
    case (ColNameExpr cn)
    obtain name qualifier q where cn: "cn = ColName name (TableName qualifier q)"
      by (metis ColName.exhaust TableName.exhaust)
    show ?thesis using ComparisonExpr ColNameExpr cn
      by (cases right) (auto simp: EqualStr_def)
  qed (simp_all add: ComparisonExpr)
qed simp_all

lemma getDMLRouting_filters_first:
  "getDMLRouting_filters Lookup database table shardkey filters =
     Lookup database table (firstKeyEquality table shardkey (map skipParenthesis filters))
                           (firstKeyEquality table shardkey (map skipParenthesis filters))"
proof (induction filters)
  case Nil
  show ?case by simp
next
  case (Cons c cs)
  show ?case
  proof (cases "asComparisonExpr (skipParenthesis c)")
    case None
    with Cons show ?thesis by (simp add: keyEquality_code)
  next
    case (Some quad)
    obtain operator left right escape where quad: "quad = (operator, left, right, escape)"
      by (cases quad) auto
    show ?thesis using Some quad Cons
      by (cases "asSQLVal right") (simp_all add: keyEquality_code)
  qed
qed

lemma firstKeyEquality_split:
  "\<forall>p \<in> set pre. keyEquality table key p = None \<Longrightarrow> keyEquality table key c = Some v \<Longrightarrow>
   firstKeyEquality table key (pre @ c # post) = Some v"
  by (induction pre) simp_all

lemma firstKeyEquality_none:
  "\<forall>c \<in> set cs. keyEquality table key c = None \<Longrightarrow> firstKeyEquality table key cs = None"
  by (induction cs) simp_all

text \<open>
  C1, as the code has it. In every call the two keys handed to \<open>Lookup\<close> are the same value,
  \<open>routingKey\<close>. It is absent when the routing key name is empty or the where clause is
  absent; otherwise it is decided by the decomposed conjuncts with their enclosing
  parentheses removed (\<open>skipParenthesis\<close>): absent when none of them is an equality of the
  routing key column with a literal, else the literal of the first one that is, whatever
  follows it.
\<close>

theorem getDMLRouting_first_stripped_match:
  "getDMLRouting Lookup database table shardkey wh =
     Lookup database table (routingKey table shardkey wh) (routingKey table shardkey wh)
   \<and> (shardkey = '''' \<or> wh = None \<longrightarrow> routingKey table shardkey wh = None)
   \<and> (shardkey \<noteq> '''' \<and> wh = Some (Where ty e)
        \<and> (\<forall>c \<in> set (splitAndExpression [] e). keyEquality table shardkey (skipParenthesis c) = None)
      \<longrightarrow> routingKey table shardkey wh = None)
   \<and> (shardkey \<noteq> '''' \<and> wh = Some (Where ty e)
        \<and> splitAndExpression [] e = pre @ c # post
        \<and> (\<forall>p \<in> set pre. keyEquality table shardkey (skipParenthesis p) = None)
        \<and> keyEquality table shardkey (skipParenthesis c) = Some v
      \<longrightarrow> routingKey table shardkey wh = Some v)"
proof -
  have call: "getDMLRouting Lookup database table shardkey wh =
     Lookup database table (routingKey table shardkey wh) (routingKey table shardkey wh)"
  proof (cases wh)
    case None
    then show ?thesis by (simp add: routingKey_def)
  next
    case (Some w)
    then show ?thesis
      by (cases w) (simp add: routingKey_def getDMLRouting_filters_first)
  qed
  have absent: "shardkey = '''' \<or> wh = None \<longrightarrow> routingKey table shardkey wh = None"
    by (auto simp: routingKey_def split: option.splits Where.splits)
  have nomatch: "shardkey \<noteq> '''' \<and> wh = Some (Where ty e)
        \<and> (\<forall>c \<in> set (splitAndExpression [] e). keyEquality table shardkey (skipParenthesis c) = None)
      \<longrightarrow> routingKey table shardkey wh = None"
    using firstKeyEquality_none[of "map skipParenthesis (splitAndExpression [] e)" table shardkey]
    by (simp add: routingKey_def)
  have match: "shardkey \<noteq> '''' \<and> wh = Some (Where ty e)
        \<and> splitAndExpression [] e = pre @ c # post
        \<and> (\<forall>p \<in> set pre. keyEquality table shardkey (skipParenthesis p) = None)
        \<and> keyEquality table shardkey (skipParenthesis c) = Some v
      \<longrightarrow> routingKey table shardkey wh = Some v"
    using firstKeyEquality_split[of "map skipParenthesis pre" table shardkey "skipParenthesis c" v
        "map skipParenthesis post"]
    by (simp add: routingKey_def)
  from call absent nomatch match show ?thesis by blast
qed

text \<open>The spec's examples for table \<open>t\<close> with key \<open>id\<close>: \<open>id = 5\<close> is looked up at 5,
  \<open>name = 'x'\<close> everywhere, \<open>id = 5 AND id = 7\<close> at 5; \<open>u.id = 5 AND (t.id = 7)\<close> at 7; an
  empty key name and an absent where clause everywhere.\<close>

theorem getDMLRouting_first_stripped_match_witness:
  "getDMLRouting LookupCall ''db'' ''t'' ''id'' (Some (Where ''where'' (equals (col ''id'') (intLit ''5''))))
     = LookupCall ''db'' ''t'' (Some (SQLVal IntVal ''5'')) (Some (SQLVal IntVal ''5''))
   \<and> getDMLRouting LookupCall ''db'' ''t'' ''id'' (Some (Where ''where'' (equals (col ''name'') (strLit ''x''))))
     = LookupCall ''db'' ''t'' None None
   \<and> getDMLRouting LookupCall ''db'' ''t'' ''id''
        (Some (Where ''where'' (AndExpr (equals (col ''id'') (intLit ''5'')) (equals (col ''id'') (intLit ''7'')))))
     = LookupCall ''db'' ''t'' (Some (SQLVal IntVal ''5'')) (Some (SQLVal IntVal ''5''))
   \<and> getDMLRouting LookupCall ''db'' ''t'' ''id''
        (Some (Where ''where'' (AndExpr (equals (qcol ''u'' ''id'') (intLit ''5''))
                 (ParenExpr (equals (qcol ''t'' ''id'') (intLit ''7''))))))
     = LookupCall ''db'' ''t'' (Some (SQLVal IntVal ''7'')) (Some (SQLVal IntVal ''7''))
   \<and> getDMLRouting LookupCall ''db'' ''t'' '''' (Some (Where ''where'' (equals (col '''') (intLit ''5''))))
     = LookupCall ''db'' ''t'' None None
   \<and> getDMLRouting LookupCall ''db'' ''t'' ''id'' None = LookupCall ''db'' ''t'' None None"
  using getDMLRouting_first_stripped_match[of LookupCall "''db''" "''t''" "''id''"
      "Some (Where ''where'' (AndExpr (equals (qcol ''u'' ''id'') (intLit ''5''))
                 (ParenExpr (equals (qcol ''t'' ''id'') (intLit ''7'')))))"
      "''where''" "AndExpr (equals (qcol ''u'' ''id'') (intLit ''5''))
                 (ParenExpr (equals (qcol ''t'' ''id'') (intLit ''7'')))"
      "[equals (qcol ''u'' ''id'') (intLit ''5'')]" "ParenExpr (equals (qcol ''t'' ''id'') (intLit ''7''))"
      "[]" "SQLVal IntVal ''7''"]
  by (simp add: routingKey_def equals_def col_def qcol_def intLit_def strLit_def EqualStr_def)

text \<open>C1 as stated fails on the where clause \<open>(id = 5)\<close>: its one conjunct is a ParenExpr, so no
  decomposed conjunct is an equality comparison, yet the lookup is the bounded one.\<close>

theorem getDMLRouting_unstripped_counterexample:
  "firstKeyEquality ''t'' ''id'' (splitAndExpression [] (ParenExpr (equals (col ''id'') (intLit ''5'')))) = None
   \<and> getDMLRouting LookupCall ''db'' ''t'' ''id''
        (Some (Where ''where'' (ParenExpr (equals (col ''id'') (intLit ''5'')))))
     = LookupCall ''db'' ''t'' (Some (SQLVal IntVal ''5'')) (Some (SQLVal IntVal ''5''))
   \<and> LookupCall ''db'' ''t'' (Some (SQLVal IntVal ''5'')) (Some (SQLVal IntVal ''5''))
     \<noteq> LookupCall ''db'' ''t'' None None"
  by (simp add: equals_def col_def intLit_def EqualStr_def)

lemma skipParenthesis_parens:
  "skipParenthesis (parens n e) = skipParenthesis e"
  by (induction n) simp_all

lemma splitAndExpression_parens_comparison:
  "splitAndExpression [] (parens n (ComparisonExpr operator l r escape))
   = [parens n (ComparisonExpr operator l r escape)]"
proof (cases n)
  case 0
  then show ?thesis by simp
next
  case (Suc m)
  show ?thesis
  proof (cases m)
    case 0
    with Suc show ?thesis by simp
  next
    case (Suc k)
    with \<open>n = Suc m\<close> show ?thesis by simp
  qed
qed

text \<open>
  C10. A where clause that is an equality of the routing key column (unqualified, or
  qualified by the table) with a literal, inside any number of parentheses, is looked up
  at that literal, although its decomposition is the one parenthesized node. So is a where
  clause with such a conjunct, when no conjunct before it is an equality of the key with a
  literal once its parentheses are stripped.
\<close>

theorem getDMLRouting_strips_parentheses:
  assumes "shardkey \<noteq> ''''" and "qualifier = '''' \<or> qualifier = table"
  shows "getDMLRouting Lookup database table shardkey
           (Some (Where ty (parens n
              (ComparisonExpr ''='' (ColNameExpr (ColName shardkey (TableName qualifier q)))
                 (SQLValExpr v) escape))))
         = Lookup database table (Some v) (Some v)
         \<and> splitAndExpression [] (parens n
              (ComparisonExpr ''='' (ColNameExpr (ColName shardkey (TableName qualifier q)))
                 (SQLValExpr v) escape))
           = [parens n (ComparisonExpr ''='' (ColNameExpr (ColName shardkey (TableName qualifier q)))
                 (SQLValExpr v) escape)]
         \<and> (splitAndExpression [] e
              = pre @ parens n (ComparisonExpr ''='' (ColNameExpr (ColName shardkey (TableName qualifier q)))
                                  (SQLValExpr v) escape) # post
              \<and> (\<forall>p \<in> set pre. keyEquality table shardkey (skipParenthesis p) = None)
            \<longrightarrow> getDMLRouting Lookup database table shardkey (Some (Where ty e))
                = Lookup database table (Some v) (Some v))"
proof -
  let ?cmp = "ComparisonExpr ''='' (ColNameExpr (ColName shardkey (TableName qualifier q)))
                 (SQLValExpr v) escape"
  have key: "keyEquality table shardkey (skipParenthesis (parens n ?cmp)) = Some v"
    using assms by (auto simp: skipParenthesis_parens)
  have alone: "splitAndExpression [] (parens n ?cmp) = [parens n ?cmp]"
    by (rule splitAndExpression_parens_comparison)
  have sole: "getDMLRouting Lookup database table shardkey (Some (Where ty (parens n ?cmp)))
              = Lookup database table (Some v) (Some v)"
    using assms(1) key by (simp add: alone getDMLRouting_filters_first)
  have among: "splitAndExpression [] e = pre @ parens n ?cmp # post
              \<and> (\<forall>p \<in> set pre. keyEquality table shardkey (skipParenthesis p) = None)
            \<longrightarrow> getDMLRouting Lookup database table shardkey (Some (Where ty e))
                = Lookup database table (Some v) (Some v)"
  proof
    assume a: "splitAndExpression [] e = pre @ parens n ?cmp # post
              \<and> (\<forall>p \<in> set pre. keyEquality table shardkey (skipParenthesis p) = None)"
    then have "\<forall>p \<in> set (map skipParenthesis pre). keyEquality table shardkey p = None"
      by simp
    from firstKeyEquality_split[OF this key, of "map skipParenthesis post"] a
    have "firstKeyEquality table shardkey (map skipParenthesis (splitAndExpression [] e)) = Some v"
      by simp
    with assms(1) show "getDMLRouting Lookup database table shardkey (Some (Where ty e))
                = Lookup database table (Some v) (Some v)"
      by (simp add: getDMLRouting_filters_first)
  qed
  from sole alone among show ?thesis by blast
qed

text \<open>The where clauses \<open>((id = 5))\<close> and \<open>name = 'x' AND ((id = 5)) AND id = 7\<close>.\<close>

theorem getDMLRouting_strips_parentheses_witness:
  "getDMLRouting LookupCall ''db'' ''t'' ''id''
     (Some (Where ''where'' (ParenExpr (ParenExpr (equals (col ''id'') (intLit ''5''))))))
   = LookupCall ''db'' ''t'' (Some (SQLVal IntVal ''5'')) (Some (SQLVal IntVal ''5''))
   \<and> splitAndExpression [] (ParenExpr (ParenExpr (equals (col ''id'') (intLit ''5''))))
     = [ParenExpr (ParenExpr (equals (col ''id'') (intLit ''5'')))]
   \<and> getDMLRouting LookupCall ''db'' ''t'' ''id''
        (Some (Where ''where''
           (AndExpr (equals (col ''name'') (strLit ''x''))
              (AndExpr (ParenExpr (ParenExpr (equals (col ''id'') (intLit ''5''))))
                 (equals (col ''id'') (intLit ''7''))))))
     = LookupCall ''db'' ''t'' (Some (SQLVal IntVal ''5'')) (Some (SQLVal IntVal ''5''))"
  using getDMLRouting_strips_parentheses[of "''id''" "''''" "''t''" LookupCall "''db''" "''where''"
      "Suc (Suc 0)" "''''" "SQLVal IntVal ''5''" NilExpr
      "AndExpr (equals (col ''name'') (strLit ''x''))
              (AndExpr (ParenExpr (ParenExpr (equals (col ''id'') (intLit ''5''))))
                 (equals (col ''id'') (intLit ''7'')))"
      "[equals (col ''name'') (strLit ''x'')]" "[equals (col ''id'') (intLit ''7'')]"]
  by (simp add: equals_def col_def intLit_def strLit_def)

section \<open>Shard key change\<close>

text \<open>
  C8. \<open>isShardKeyChanging\<close> is true exactly when some assignment's target column name is the
  routing key name; the target's qualifier plays no part; the empty list gives false.
\<close>

theorem isShardKeyChanging_iff:
  "isShardKeyChanging exprs shardkey = (\<exists>a \<in> set exprs. assignmentName a = shardkey)
   \<and> \<not> isShardKeyChanging [] shardkey"
proof -
  have "isShardKeyChanging exprs shardkey = (\<exists>a \<in> set exprs. assignmentName a = shardkey)"
  proof (induction exprs shardkey rule: isShardKeyChanging.induct)
    case (1 shardkey)
    show ?case by simp
  next
    case (2 name qualifier e exprs shardkey)
    then show ?case by auto
  qed
  then show ?thesis by simp
qed

text \<open>\<open>[id = 9]\<close> changes the key \<open>id\<close>, \<open>[name = 'a']\<close> does not; a qualified target counts by
  its name; the comparison is exact.\<close>

theorem isShardKeyChanging_iff_witness:
  "isShardKeyChanging [UpdateExpr (ColName ''id'' (TableName '''' '''')) (intLit ''9'')] ''id''
   \<and> \<not> isShardKeyChanging [UpdateExpr (ColName ''name'' (TableName '''' '''')) (strLit ''a'')] ''id''
   \<and> isShardKeyChanging [UpdateExpr (ColName ''name'' (TableName '''' '''')) (strLit ''a''),
                          UpdateExpr (ColName ''id'' (TableName ''other'' '''')) (intLit ''9'')] ''id''
   \<and> \<not> isShardKeyChanging [UpdateExpr (ColName ''ID'' (TableName '''' '''')) (intLit ''9'')] ''id''"
  using isShardKeyChanging_iff[of "[UpdateExpr (ColName ''id'' (TableName '''' '''')) (intLit ''9'')]" "''id''"]
  by simp

section \<open>Comparison validation\<close>

lemma nonValueComparison_iff:
  "nonValueComparison c =
     (case asComparisonExpr c of None \<Rightarrow> False
      | Some (operator, l, r, escape) \<Rightarrow> asSQLVal r = None)"
proof (cases c)
  case (ComparisonExpr operator l r escape)
  then show ?thesis by (cases r) simp_all
qed simp_all

lemma checkComparison_filters_find:
  "checkComparison_filters P cs =
     (case find nonValueComparison cs of
        None \<Rightarrow> None
      | Some c \<Rightarrow> Some (''unsupported: ['' @ String_Expr P c @ ''].must.be.value.compare''))"
proof (induction cs)
  case Nil
  show ?case by simp
next
  case (Cons c cs)
  show ?case
  proof (cases "asComparisonExpr c")
    case None
    with Cons show ?thesis by (simp add: nonValueComparison_iff)
  next
    case (Some quad)
    obtain operator l r escape where quad: "quad = (operator, l, r, escape)"
      by (cases quad) auto
    from Some quad have c: "c = ComparisonExpr operator l r escape"
      by (cases c) simp_all
    show ?thesis
    proof (cases "asSQLVal r")
      case None
      with c show ?thesis by (simp add: nonValueComparison_iff)
    next
      case (Some v)
      with c Cons show ?thesis by (simp add: nonValueComparison_iff)
    qed
  qed
qed

text \<open>
  C5. \<open>checkComparison\<close> returns the error "unsupported: [...].must.be.value.compare", with
  the serialized conjunct between the brackets, for the first decomposed conjunct that is a
  comparison node whose right-hand operand is not a literal, and nil when there is none:
  it fails exactly when some conjunct is such a comparison.
\<close>

theorem checkComparison_first_non_value:
  "checkComparison P e =
     (case find nonValueComparison (splitAndExpression [] e) of
        None \<Rightarrow> None
      | Some c \<Rightarrow> Some (''unsupported: ['' @ String_Expr P c @ ''].must.be.value.compare''))
   \<and> ((\<exists>err. checkComparison P e = Some err)
        = (\<exists>c \<in> set (splitAndExpression [] e). nonValueComparison c))"
proof -
  have first: "checkComparison P e =
     (case find nonValueComparison (splitAndExpression [] e) of
        None \<Rightarrow> None
      | Some c \<Rightarrow> Some (''unsupported: ['' @ String_Expr P c @ ''].must.be.value.compare''))"
    by (simp add: checkComparison_def checkComparison_filters_find)
  have "(\<exists>err. checkComparison P e = Some err)
        = (find nonValueComparison (splitAndExpression [] e) \<noteq> None)"
    unfolding first by (simp split: option.split)
  also have "\<dots> = (\<exists>c \<in> set (splitAndExpression [] e). nonValueComparison c)"
    by (auto simp add: find_None_iff)
  finally show ?thesis using first by blast
qed

text \<open>\<open>t1.id = t2.id\<close> is refused, \<open>id = 5\<close> passes; in
  \<open>id = 5 AND (a = b OR c) AND a = b AND c = d\<close> the OR is no comparison and the error
  names \<open>a = b\<close>, the first comparison of two columns.\<close>

theorem checkComparison_first_non_value_witness:
  "checkComparison exampleParser (equals (qcol ''t1'' ''id'') (qcol ''t2'' ''id''))
     = Some ''unsupported: [t1.id = t2.id].must.be.value.compare''
   \<and> checkComparison exampleParser (equals (col ''id'') (intLit ''5'')) = None
   \<and> checkComparison exampleParser
        (AndExpr (equals (col ''id'') (intLit ''5''))
           (AndExpr (OrExpr (equals (col ''a'') (col ''b'')) (col ''c''))
              (AndExpr (equals (col ''a'') (col ''b'')) (equals (col ''c'') (col ''d'')))))
     = Some ''unsupported: [a = b].must.be.value.compare''"
  using checkComparison_first_non_value[of exampleParser "equals (qcol ''t1'' ''id'') (qcol ''t2'' ''id'')"]
    checkComparison_first_non_value[of exampleParser "equals (col ''id'') (intLit ''5'')"]
    checkComparison_first_non_value[of exampleParser "AndExpr (equals (col ''id'') (intLit ''5''))
           (AndExpr (OrExpr (equals (col ''a'') (col ''b'')) (col ''c''))
              (AndExpr (equals (col ''a'') (col ''b'')) (equals (col ''c'') (col ''d''))))"]
  by (simp add: equals_def col_def qcol_def intLit_def exampleParser_def)

text \<open>
  C9. A comparison whose right-hand side is not a literal, wrapped in parentheses, passes
  \<open>checkComparison\<close>: its decomposition is the one ParenExpr node, which is no comparison
  node. Without the parentheses the same comparison is refused.
\<close>

theorem checkComparison_parenthesized:
  "asSQLVal right = None \<Longrightarrow>
   checkComparison P (ParenExpr (ComparisonExpr operator left right escape)) = None
   \<and> splitAndExpression [] (ParenExpr (ComparisonExpr operator left right escape))
       = [ParenExpr (ComparisonExpr operator left right escape)]
   \<and> (\<exists>err. checkComparison P (ComparisonExpr operator left right escape) = Some err)"
  by (simp add: checkComparison_def)

text \<open>The where clause \<open>(t1.id = t2.id)\<close>.\<close>

theorem checkComparison_parenthesized_witness:
  "checkComparison exampleParser (ParenExpr (equals (qcol ''t1'' ''id'') (qcol ''t2'' ''id''))) = None
   \<and> checkComparison exampleParser (equals (qcol ''t1'' ''id'') (qcol ''t2'' ''id''))
       = Some ''unsupported: [t1.id = t2.id].must.be.value.compare''"
  using checkComparison_parenthesized[of "qcol ''t2'' ''id''" exampleParser "''=''" "qcol ''t1'' ''id''" NilExpr]
  by (simp add: equals_def qcol_def checkComparison_def exampleParser_def)

section \<open>Projection membership\<close>

text \<open>
  C7. \<open>checkInTuple\<close> is true exactly when some tuple has the queried field or the field
  \<open>*\<close> and the queried table is empty, or the tuple refers to no table, or it refers to
  exactly the queried table. So with every tuple referring to two tables or more, no lookup
  with a table succeeds.
\<close>

theorem checkInTuple_iff:
  "checkInTuple fld table tuples =
     (\<exists>t \<in> set tuples. (field t = fld \<or> field t = ''*'')
        \<and> (table = '''' \<or> referTables t = [] \<or> referTables t = [table]))
   \<and> (table \<noteq> '''' \<and> (\<forall>t \<in> set tuples. 2 \<le> length (referTables t))
        \<longrightarrow> \<not> checkInTuple fld table tuples)"
proof -
  have one: "\<And>xs. (length xs = 1 \<and> xs ! 0 = table) = (xs = [table])"
  proof -
    fix xs :: "string list"
    show "(length xs = 1 \<and> xs ! 0 = table) = (xs = [table])"
      by (cases xs) auto
  qed
  have iff: "checkInTuple fld table tuples =
     (\<exists>t \<in> set tuples. (field t = fld \<or> field t = ''*'')
        \<and> (table = '''' \<or> referTables t = [] \<or> referTables t = [table]))"
  proof (induction tuples)
    case Nil
    show ?case by simp
  next
    case (Cons t ts)
    show ?case using Cons one[of "referTables t"] by auto
  qed
  have "table \<noteq> '''' \<and> (\<forall>t \<in> set tuples. 2 \<le> length (referTables t))
        \<longrightarrow> \<not> checkInTuple fld table tuples"
    unfolding iff by auto
  with iff show ?thesis by blast
qed

text \<open>With the tuples \<open>a1\<close> (table \<open>t\<close>) and \<open>b\<close> (table \<open>x\<close>): \<open>b\<close> of \<open>x\<close> is projected, \<open>b\<close> of
  \<open>t\<close> is not, \<open>a1\<close> without a table is. A tuple referring to \<open>t\<close> and \<open>x\<close> does not answer
  for \<open>t\<close>, but does without a table. A star tuple answers for any field.\<close>

theorem checkInTuple_iff_witness:
  "checkInTuple ''b'' ''x'' [tuple0 ''a1'' [''t''], tuple0 ''b'' [''x'']]
   \<and> \<not> checkInTuple ''b'' ''t'' [tuple0 ''a1'' [''t''], tuple0 ''b'' [''x'']]
   \<and> checkInTuple ''a1'' '''' [tuple0 ''a1'' [''t''], tuple0 ''b'' [''x'']]
   \<and> \<not> checkInTuple ''s'' ''t'' [tuple0 ''s'' [''t'', ''x'']]
   \<and> checkInTuple ''s'' '''' [tuple0 ''s'' [''t'', ''x'']]
   \<and> checkInTuple ''anything'' ''t'' [tuple0 ''*'' []]"
  using checkInTuple_iff[of "''b''" "''x''" "[tuple0 ''a1'' [''t''], tuple0 ''b'' [''x'']]"]
    checkInTuple_iff[of "''s''" "''t''" "[tuple0 ''s'' [''t'', ''x'']]"]
  by (simp add: tuple0_def)

section \<open>Decomposition of an average\<close>

text \<open>
  C6. \<open>decomposeAvg\<close> returns two aliased expressions: the call \<open>sum\<close> on the tuple's
  \<open>aggrField\<close> (as a value argument) under the alias \<open>field\<close> of the tuple, then the call
  \<open>count\<close> on the same \<open>aggrField\<close> with no alias. The result is a function of the tuple
  alone, and the source assigns to no field of the tuple, so the model returns no new one.
\<close>

theorem decomposeAvg_sum_count:
  "decomposeAvg tuple =
     [AliasedExpr (FuncExpr '''' ''sum'' False
                     [AliasedExpr (SQLValExpr (SQLVal ValArg (aggrField tuple))) ''''])
                  (field tuple),
      AliasedExpr (FuncExpr '''' ''count'' False
                     [AliasedExpr (SQLValExpr (SQLVal ValArg (aggrField tuple))) ''''])
                  '''']
   \<and> length (decomposeAvg tuple) = 2"
  by (simp add: decomposeAvg_def NewValArg_def)

text \<open>The tuple with field \<open>avgval\<close> and aggrField \<open>a\<close> gives \<open>sum(a) as avgval, count(a)\<close>.\<close>

theorem decomposeAvg_sum_count_witness:
  "example_String_SelectExprs
     (decomposeAvg \<lparr>expr = AliasedExpr (FuncExpr '''' ''avg'' False [AliasedExpr (col ''a'') '''']) ''avgval'',
                    field = ''avgval'', referTables = [], aggrFuc = ''avg'', aggrField = ''a'',
                    distinct' = False\<rparr>)
   = ''sum(a) as avgval, count(a)''"
  using decomposeAvg_sum_count
    [of "\<lparr>expr = AliasedExpr (FuncExpr '''' ''avg'' False [AliasedExpr (col ''a'') '''']) ''avgval'',
          field = ''avgval'', referTables = [], aggrFuc = ''avg'', aggrField = ''a'',
          distinct' = False\<rparr>"]
  by simp

section \<open>Parsing the select list\<close>

text \<open>Visiting a list of marked nodes one after the other, stopping at the first error:
  what a walk amounts to when its visitor never asks to skip a subtree.\<close>

fun visitAll :: "'s Visit \<Rightarrow> (bool \<times> Expr) list \<Rightarrow> 's \<Rightarrow> error option \<times> 's" where
  "visitAll visit [] s = (None, s)"
| "visitAll visit ((atRoot, node) # rest) s =
     (case visit atRoot node s of
        ((kontinue, Some err), s') \<Rightarrow> (Some err, s')
      | ((kontinue, None), s') \<Rightarrow> visitAll visit rest s')"

lemma visitAll_append:
  "visitAll visit (xs @ ys) s =
     (case visitAll visit xs s of
        (Some err, s') \<Rightarrow> (Some err, s')
      | (None, s') \<Rightarrow> visitAll visit ys s')"
  by (induction visit xs s rule: visitAll.induct) (auto split: prod.splits option.splits)

definition alwaysContinues :: "'s Visit \<Rightarrow> bool" where
  "alwaysContinues visit =
     (\<forall>atRoot node s kontinue s'. visit atRoot node s = ((kontinue, None), s') \<longrightarrow> kontinue)"

lemma Walk_visitAll:
  "alwaysContinues visit \<Longrightarrow>
   Walk P visit atRoot nodes s = visitAll visit (preorder P atRoot nodes) s"
proof (induction P visit atRoot nodes s rule: Walk.induct)
  case (1 P visit atRoot s)
  show ?case by simp
next
  case (2 P visit atRoot node nodes s)
  note ac = \<open>alwaysContinues visit\<close>
  show ?case
  proof (cases "node = NilExpr")
    case True
    with 2 show ?thesis by simp
  next
    case notnil: False
    obtain kontinue err s' where v: "visit atRoot node s = ((kontinue, err), s')"
      by (metis prod.exhaust)
    show ?thesis
    proof (cases err)
      case (Some e)
      with notnil v show ?thesis by simp
    next
      case None
      with ac v have k: kontinue unfolding alwaysContinues_def by blast
      have sub: "Walk P visit False (WalkSubtree P node) s'
                 = visitAll visit (preorder P False (WalkSubtree P node)) s'"
        using "2.IH"(2)[OF notnil v[symmetric] refl None k ac] .
      show ?thesis
      proof (cases "Walk P visit False (WalkSubtree P node) s'")
        case (Pair r s'')
        show ?thesis
        proof (cases r)
          case (Some e)
          with Pair sub notnil v None k show ?thesis
            by (simp add: visitAll_append)
        next
          case rNone: None
          have rest: "Walk P visit atRoot nodes s'' = visitAll visit (preorder P atRoot nodes) s''"
            using "2.IH"(3)[OF notnil v[symmetric] refl None k _ rNone ac] Pair rNone by simp
          with Pair sub notnil v None k rNone show ?thesis
            by (simp add: visitAll_append)
        qed
      qed
    qed
  qed
qed

lemma visit_continues: "alwaysContinues (parserSelectExpr_visit P fld)"
  unfolding alwaysContinues_def
proof (intro allI impI)
  fix atRoot node s kontinue s'
  assume "parserSelectExpr_visit P fld atRoot node s = ((kontinue, None), s')"
  then show kontinue
    by (induction P fld atRoot node s rule: parserSelectExpr_visit.induct)
       (auto simp: Let_def split: if_splits)
qed

lemma visit_error_iff:
  "(\<exists>err. snd (fst (parserSelectExpr_visit P fld atRoot node s)) = Some err) = violation P atRoot node"
  by (induction P fld atRoot node s rule: parserSelectExpr_visit.induct)
     (auto simp: Let_def split: if_splits)

lemma visit_error_state:
  "snd (fst (parserSelectExpr_visit P fld atRoot node s))
   = snd (fst (parserSelectExpr_visit P fld atRoot node s0))"
  by (induction P fld atRoot node s rule: parserSelectExpr_visit.induct)
     (auto simp: Let_def split: if_splits)

definition addTable :: "string list \<Rightarrow> string \<Rightarrow> string list" where
  "addTable tables t = (if t \<in> set tables then tables else tables @ [t])"

lemma visit_referTables:
  "parserSelectExpr_visit P fld atRoot node s = ((kontinue, None), s') \<Longrightarrow>
   var_referTables s' = foldl addTable (var_referTables s) (qualifierOf node)"
  by (induction P fld atRoot node s rule: parserSelectExpr_visit.induct)
     (auto simp: Let_def addTable_def split: if_splits)

lemma visitAll_no_violation:
  "\<forall>(atRoot, node) \<in> set xs. \<not> violation P atRoot node \<Longrightarrow>
   \<exists>s'. visitAll (parserSelectExpr_visit P fld) xs s = (None, s')
        \<and> var_referTables s'
            = foldl addTable (var_referTables s) (concat (map (\<lambda>(atRoot, node). qualifierOf node) xs))"
proof (induction xs arbitrary: s)
  case Nil
  show ?case by simp
next
  case (Cons x xs)
  obtain atRoot node where x: "x = (atRoot, node)" by (cases x) auto
  obtain kontinue err s1 where v: "parserSelectExpr_visit P fld atRoot node s = ((kontinue, err), s1)"
    by (metis prod.exhaust)
  from Cons.prems x have "\<not> violation P atRoot node" by simp
  with visit_error_iff[of P fld atRoot node s] v have err: "err = None" by (cases err) auto
  from Cons.prems have "\<forall>(atRoot, node) \<in> set xs. \<not> violation P atRoot node" by simp
  from Cons.IH[OF this, of s1] obtain s' where
    s': "visitAll (parserSelectExpr_visit P fld) xs s1 = (None, s')"
        "var_referTables s'
         = foldl addTable (var_referTables s1) (concat (map (\<lambda>(atRoot, node). qualifierOf node) xs))"
    by blast
  from visit_referTables[of P fld atRoot node s kontinue s1] v err
  have "var_referTables s1 = foldl addTable (var_referTables s) (qualifierOf node)" by simp
  with s' x v err show ?case by simp
qed

lemma visitAll_first_violation:
  assumes "\<forall>(atRoot, node) \<in> set pre. \<not> violation P atRoot node"
    and "violation P atRoot node"
  shows "\<exists>err s'. visitAll (parserSelectExpr_visit P fld) (pre @ (atRoot, node) # post) s = (Some err, s')
           \<and> (\<forall>s0. snd (fst (parserSelectExpr_visit P fld atRoot node s0)) = Some err)"
proof -
  from visitAll_no_violation[OF assms(1), of fld s] obtain s1 where
    s1: "visitAll (parserSelectExpr_visit P fld) pre s = (None, s1)" by blast
  from visit_error_iff[of P fld atRoot node s1] assms(2) obtain err where
    err: "snd (fst (parserSelectExpr_visit P fld atRoot node s1)) = Some err" by blast
  obtain kontinue s2 where v: "parserSelectExpr_visit P fld atRoot node s1 = ((kontinue, Some err), s2)"
    using err by (metis prod.collapse)
  have "visitAll (parserSelectExpr_visit P fld) (pre @ (atRoot, node) # post) s = (Some err, s2)"
    using s1 v by (simp add: visitAll_append)
  moreover have "\<forall>s0. snd (fst (parserSelectExpr_visit P fld atRoot node s0)) = Some err"
    using err visit_error_state[of P fld atRoot node _ s1] by simp
  ultimately show ?thesis by blast
qed

lemma first_violation_split:
  "\<exists>(atRoot, node) \<in> set xs. violation P atRoot node \<Longrightarrow>
   \<exists>pre atRoot node post. xs = pre @ (atRoot, node) # post
      \<and> (\<forall>(r, n) \<in> set pre. \<not> violation P r n) \<and> violation P atRoot node"
proof -
  assume "\<exists>(atRoot, node) \<in> set xs. violation P atRoot node"
  then have "\<exists>x \<in> set xs. (\<lambda>(r, n). violation P r n) x" by auto
  from split_list_first_prop[OF this] obtain pre x post where
    "xs = pre @ x # post" "(\<lambda>(r, n). violation P r n) x"
    "\<forall>y \<in> set pre. \<not> (\<lambda>(r, n). violation P r n) y" by blast
  moreover obtain r n where "x = (r, n)" by (cases x) auto
  ultimately have "xs = pre @ (r, n) # post \<and> (\<forall>(r', n') \<in> set pre. \<not> violation P r' n')
                   \<and> violation P r n"
    by auto
  then show ?thesis by blast
qed

lemma foldl_addTable:
  "foldl addTable acc qs = acc @ filter (\<lambda>q. q \<notin> set acc) (firstSeen qs)"
proof (induction qs arbitrary: acc)
  case Nil
  show ?case by simp
next
  case (Cons x xs)
  have rm: "\<And>P ys. filter P (removeAll x ys) = filter (\<lambda>y. P y \<and> y \<noteq> x) ys"
  proof -
    fix P :: "string \<Rightarrow> bool" and ys
    show "filter P (removeAll x ys) = filter (\<lambda>y. P y \<and> y \<noteq> x) ys"
      by (induction ys) auto
  qed
  show ?case
  proof (cases "x \<in> set acc")
    case True
    then have "filter (\<lambda>q. q \<notin> set acc) (removeAll x (firstSeen xs))
               = filter (\<lambda>q. q \<notin> set acc) (firstSeen xs)"
      unfolding rm by (intro filter_cong) auto
    with True Cons[of acc] show ?thesis by (simp add: addTable_def)
  next
    case False
    have "filter (\<lambda>q. q \<notin> set (acc @ [x])) (firstSeen xs)
          = filter (\<lambda>q. q \<notin> set acc) (removeAll x (firstSeen xs))"
      unfolding rm by (intro filter_cong) auto
    with False Cons[of "acc @ [x]"] show ?thesis by (simp add: addTable_def)
  qed
qed

lemma foldl_addTable_Nil: "foldl addTable [] qs = firstSeen qs"
  by (simp add: foldl_addTable)

text \<open>The walk's order against the syntax tree: the root is the one marked node and comes
  first, each child's nodes follow in the order of \<open>WalkSubtree\<close>, and the nodes met are
  those the expression contains, each as often.\<close>

lemma preorder_False_flags: "\<forall>(r, n) \<in> set (preorder P False nodes). \<not> r"
proof (induction P "False" nodes rule: preorder.induct)
  case (1 P)
  show ?case by simp
next
  case (2 P node nodes)
  then show ?case by (cases "node = NilExpr") auto
qed

lemma preorder_root:
  "preorder P True [e] = (if e = NilExpr then [] else (True, e) # preorder P False (WalkSubtree P e))"
  by simp

lemma map_snd_preorder:
  "map snd (preorder P b nodes) = concat (map (walkedNodes P) nodes)"
  by (induction nodes) (simp_all add: walkedNodes_def)

lemma walkedNodes_rec:
  "e \<noteq> NilExpr \<Longrightarrow> walkedNodes P e = e # concat (map (walkedNodes P) (WalkSubtree P e))"
  using map_snd_preorder[of P False "WalkSubtree P e"] by (simp add: walkedNodes_def)

lemma selectExprNodes_children:
  "concat (map selectExprNodes xs) = concat (map exprNodes (concat (map selectExprChildren xs)))"
proof (induction xs)
  case Nil
  show ?case by simp
next
  case (Cons x xs)
  then show ?case by (cases x) simp_all
qed

lemma whenNodes_children:
  "concat (map whenNodes xs) = concat (map exprNodes (concat (map whenChildren xs)))"
proof (induction xs)
  case Nil
  show ?case by simp
next
  case (Cons x xs)
  then show ?case by (cases x) simp_all
qed

lemma orderNodes_children:
  "concat (map orderNodes xs) = concat (map exprNodes (concat (map orderChildren xs)))"
proof (induction xs)
  case Nil
  show ?case by simp
next
  case (Cons x xs)
  then show ?case by (cases x) simp_all
qed

lemma exprNodes_children:
  "node \<noteq> NilExpr \<Longrightarrow> exprNodes node = node # concat (map exprNodes (children node))"
  by (cases node)
     (simp_all add: selectExprNodes_children whenNodes_children orderNodes_children)

lemma mset_concat_map:
  assumes "mset xs = mset ys"
  shows "mset (concat (map f xs)) = mset (concat (map f ys))"
proof -
  from assms have "mset (map (\<lambda>x. mset (f x)) xs) = mset (map (\<lambda>x. mset (f x)) ys)"
    by (metis mset_map)
  then have "sum_mset (mset (map (\<lambda>x. mset (f x)) xs)) = sum_mset (mset (map (\<lambda>x. mset (f x)) ys))"
    by simp
  then have "sum_list (map (\<lambda>x. mset (f x)) xs) = sum_list (map (\<lambda>x. mset (f x)) ys)"
    by (simp only: sum_mset_sum_list)
  then show ?thesis by (simp add: mset_concat comp_def)
qed

lemma mset_preorder:
  "mset (map snd (preorder P b nodes)) = mset (concat (map exprNodes nodes))"
proof (induction P b nodes rule: preorder.induct)
  case (1 P atRoot)
  show ?case by simp
next
  case (2 P atRoot node nodes)
  show ?case
  proof (cases "node = NilExpr")
    case True
    with 2 show ?thesis by simp
  next
    case False
    have "mset (map snd (preorder P False (WalkSubtree P node)))
          = mset (concat (map exprNodes (WalkSubtree P node)))"
      using "2.IH"(2)[OF False] .
    also have "\<dots> = mset (concat (map exprNodes (children node)))"
      by (rule mset_concat_map[OF mset_WalkSubtree])
    finally have sub: "mset (map snd (preorder P False (WalkSubtree P node)))
          = mset (concat (map exprNodes (children node)))" .
    have rest: "mset (map snd (preorder P atRoot nodes)) = mset (concat (map exprNodes nodes))"
      using "2.IH"(3)[OF False] .
    show ?thesis
      using False sub rest exprNodes_children[OF False] by simp
  qed
qed

lemma mset_walkedNodes: "mset (walkedNodes P e) = mset (exprNodes e)"
  using mset_preorder[of P True "[e]"] by (simp add: walkedNodes_def)

lemma set_walkedNodes: "set (walkedNodes P e) = set (exprNodes e)"
  using mset_walkedNodes[of P e] by (rule mset_eq_setD)

lemma preorder_weight:
  "(r, n) \<in> set (preorder P b nodes) \<Longrightarrow> \<exists>c \<in> set nodes. walkWeight n \<le> walkWeight c"
proof (induction P b nodes rule: preorder.induct)
  case (1 P atRoot)
  then show ?case by simp
next
  case (2 P atRoot node nodes)
  show ?case
  proof (cases "node = NilExpr")
    case True
    with 2 show ?thesis by auto
  next
    case False
    from "2.prems" False
    consider "n = node"
      | "(r, n) \<in> set (preorder P False (WalkSubtree P node))"
      | "(r, n) \<in> set (preorder P atRoot nodes)"
      by auto
    then show ?thesis
    proof cases
      case 1
      then show ?thesis by auto
    next
      case 2
      from "2.IH"(2)[OF False this] obtain c where
        c: "c \<in> set (WalkSubtree P node)" "walkWeight n \<le> walkWeight c" by blast
      from c(1) have "walkWeight c \<le> sum_list (map walkWeight (WalkSubtree P node))"
        by (simp add: member_le_sum_list)
      with walkWeight_WalkSubtree[of P node] c(2) have "walkWeight n \<le> walkWeight node" by simp
      then show ?thesis by auto
    next
      case 3
      from "2.IH"(3)[OF False this] show ?thesis by auto
    qed
  qed
qed

lemma preorder_root_marks:
  assumes "(r, n) \<in> set (preorder P True [e])"
  shows "r = (n = e)"
proof (cases "e = NilExpr")
  case True
  with assms show ?thesis by simp
next
  case False
  with assms consider "(r, n) = (True, e)" | "(r, n) \<in> set (preorder P False (WalkSubtree P e))"
    by auto
  then show ?thesis
  proof cases
    case 1
    then show ?thesis by simp
  next
    case 2
    with preorder_False_flags[of P "WalkSubtree P e"] have "\<not> r" by auto
    from preorder_weight[OF 2] obtain c where
      c: "c \<in> set (WalkSubtree P e)" "walkWeight n \<le> walkWeight c" by blast
    from c(1) have "walkWeight c \<le> sum_list (map walkWeight (WalkSubtree P e))"
      by (simp add: member_le_sum_list)
    with walkWeight_WalkSubtree[of P e] c(2) have "walkWeight n < walkWeight e" by simp
    then have "n \<noteq> e" by auto
    with \<open>\<not> r\<close> show ?thesis by simp
  qed
qed

lemma preorder_marks:
  "preorder P True [e] = map (\<lambda>n. (n = e, n)) (walkedNodes P e)"
proof -
  have "map (\<lambda>x. (snd x = e, snd x)) (preorder P True [e]) = preorder P True [e]"
  proof (rule map_idI)
    fix x
    assume mem: "x \<in> set (preorder P True [e])"
    obtain r n where x: "x = (r, n)" by (cases x)
    with mem have "(r, n) \<in> set (preorder P True [e])" by blast
    from preorder_root_marks[OF this] have "r = (n = e)" .
    with x show "(snd x = e, snd x) = x" by simp
  qed
  then show ?thesis by (simp add: walkedNodes_def comp_def)
qed

lemma violation_rejected:
  "(\<exists>(r, n) \<in> set (preorder P True [e]). violation P r n)
   = (\<exists>n \<in> set (exprNodes e). rejected P e n)"
proof -
  have "(\<exists>(r, n) \<in> set (preorder P True [e]). violation P r n)
        = (\<exists>n \<in> set (walkedNodes P e). rejected P e n)"
    unfolding preorder_marks rejected_def by auto
  then show ?thesis by (simp add: set_walkedNodes)
qed

definition initialVars :: parserVars where
  "initialVars = \<lparr>var_funcName = '''', var_aggrField = '''', var_distinct = False, var_referTables = []\<rparr>"

lemma parserSelectExpr_visitAll:
  "parserSelectExpr P e as =
     (case visitAll (parserSelectExpr_visit P (parserSelectExpr_field P e as)) (preorder P True [e]) initialVars of
        (Some err, s) \<Rightarrow> Inl err
      | (None, s) \<Rightarrow>
          Inr \<lparr>expr = AliasedExpr e as, field = parserSelectExpr_field P e as,
               referTables = var_referTables s, aggrFuc = var_funcName s,
               aggrField = var_aggrField s, distinct' = var_distinct s\<rparr>)"
  unfolding parserSelectExpr_def Let_def initialVars_def[symmetric]
  by (simp only: Walk_visitAll[OF visit_continues])

lemma seenQualifiers_preorder:
  "concat (map (\<lambda>(atRoot, node). qualifierOf node) (preorder P True [e])) = seenQualifiers P e"
  by (simp add: seenQualifiers_def walkedNodes_def comp_def case_prod_unfold)

lemma parserSelectExpr_accepts:
  assumes "\<forall>(r, n) \<in> set (preorder P True [e]). \<not> violation P r n"
  shows "\<exists>t. parserSelectExpr P e as = Inr t \<and> field t = parserSelectExpr_field P e as
            \<and> referTables t = firstSeen (seenQualifiers P e) \<and> expr t = AliasedExpr e as"
proof -
  from visitAll_no_violation[OF assms, of "parserSelectExpr_field P e as" initialVars]
  obtain s' where
    s': "visitAll (parserSelectExpr_visit P (parserSelectExpr_field P e as)) (preorder P True [e]) initialVars
         = (None, s')"
    "var_referTables s' = foldl addTable (var_referTables initialVars)
        (concat (map (\<lambda>(atRoot, node). qualifierOf node) (preorder P True [e])))"
    by blast
  have "var_referTables s' = firstSeen (seenQualifiers P e)"
    using s'(2) unfolding seenQualifiers_preorder by (simp add: initialVars_def foldl_addTable_Nil)
  then show ?thesis
    unfolding parserSelectExpr_visitAll s'(1) by simp
qed

lemma parserSelectExpr_rejects_marked:
  assumes "preorder P True [e] = pre @ (atRoot, node) # post"
    and "\<forall>(r, n) \<in> set pre. \<not> violation P r n"
    and "violation P atRoot node"
  shows "\<exists>err. parserSelectExpr P e as = Inl err
           \<and> (\<forall>s. snd (fst (parserSelectExpr_visit P (parserSelectExpr_field P e as) atRoot node s)) = Some err)"
proof -
  from visitAll_first_violation[OF assms(2,3), of "parserSelectExpr_field P e as" post initialVars]
  obtain err s' where
    "visitAll (parserSelectExpr_visit P (parserSelectExpr_field P e as)) (pre @ (atRoot, node) # post) initialVars
     = (Some err, s')"
    "\<forall>s0. snd (fst (parserSelectExpr_visit P (parserSelectExpr_field P e as) atRoot node s0)) = Some err"
    by blast
  then show ?thesis
    unfolding parserSelectExpr_visitAll assms(1) by simp
qed

lemma parserSelectExpr_rejects_first:
  assumes "walkedNodes P e = pre @ node # post"
    and "\<forall>n \<in> set pre. \<not> rejected P e n"
    and "rejected P e node"
  shows "\<exists>err. parserSelectExpr P e as = Inl err
           \<and> (\<forall>s. snd (fst (parserSelectExpr_visit P (parserSelectExpr_field P e as) (node = e) node s))
                   = Some err)"
proof -
  have split: "preorder P True [e]
        = map (\<lambda>n. (n = e, n)) pre @ (node = e, node) # map (\<lambda>n. (n = e, n)) post"
    unfolding preorder_marks assms(1) by simp
  have clean: "\<forall>(r, n) \<in> set (map (\<lambda>n. (n = e, n)) pre). \<not> violation P r n"
    using assms(2) by (auto simp: rejected_def)
  have bad: "violation P (node = e) node"
    using assms(3) by (simp add: rejected_def)
  from parserSelectExpr_rejects_marked[OF split clean bad] show ?thesis .
qed

lemma parserSelectExpr_error_marked:
  "(\<exists>err. parserSelectExpr P e as = Inl err)
   = (\<exists>(r, n) \<in> set (preorder P True [e]). violation P r n)"
proof
  assume "\<exists>err. parserSelectExpr P e as = Inl err"
  then show "\<exists>(r, n) \<in> set (preorder P True [e]). violation P r n"
    using parserSelectExpr_accepts[of P e as] by fastforce
next
  assume "\<exists>(r, n) \<in> set (preorder P True [e]). violation P r n"
  from first_violation_split[OF this] obtain pre atRoot node post where
    "preorder P True [e] = pre @ (atRoot, node) # post"
    "\<forall>(r, n) \<in> set pre. \<not> violation P r n" "violation P atRoot node"
    by blast
  from parserSelectExpr_rejects_marked[OF this, of as]
  show "\<exists>err. parserSelectExpr P e as = Inl err" by blast
qed

lemma parserSelectExpr_error_iff:
  "(\<exists>err. parserSelectExpr P e as = Inl err) = (\<exists>n \<in> set (exprNodes e). rejected P e n)"
  unfolding parserSelectExpr_error_marked by (rule violation_rejected)

lemma distinct_firstSeen: "distinct (firstSeen xs)"
  by (induction xs) (simp_all add: distinct_removeAll)

lemma set_firstSeen: "set (firstSeen xs) = set xs"
  by (induction xs) auto

lemma set_seenQualifiers: "set (seenQualifiers P e) = set (tableQualifiers e)"
  by (simp add: seenQualifiers_def tableQualifiers_def set_walkedNodes)

text \<open>
  C3. \<open>parserSelectExpr\<close> returns an error and no tuple whenever (and only when) the
  expression contains a node it must reject: an aggregate call that is not the top-level
  node, or that has not exactly one argument, or whose serialized argument is \<open>*\<close> while
  its name is not \<open>count\<close>; a GROUP_CONCAT call; a subquery. The walk stops at the first
  such node it meets: the error returned is the one the visitor raises there. The walk
  meets the nodes the expression contains, each as often: the root first, then the nodes
  of each child, the children in the order of the parser package, which is any order.
\<close>

theorem parserSelectExpr_rejects:
  "((\<exists>node \<in> set (exprNodes e). rejected P e node)
      = (\<exists>err. parserSelectExpr P e as = Inl err))
   \<and> (walkedNodes P e = pre @ node # post
        \<and> (\<forall>n \<in> set pre. \<not> rejected P e n) \<and> rejected P e node
      \<longrightarrow> (\<exists>err. parserSelectExpr P e as = Inl err
             \<and> (\<forall>s. snd (fst (parserSelectExpr_visit P (parserSelectExpr_field P e as)
                                  (node = e) node s))
                     = Some err)))
   \<and> mset (walkedNodes P e) = mset (exprNodes e)
   \<and> (e \<noteq> NilExpr
      \<longrightarrow> walkedNodes P e = e # concat (map (walkedNodes P) (WalkSubtree P e))
          \<and> mset (WalkSubtree P e) = mset (children e))"
proof -
  have iff: "(\<exists>node \<in> set (exprNodes e). rejected P e node)
        = (\<exists>err. parserSelectExpr P e as = Inl err)"
    using parserSelectExpr_error_iff[of P e as] by simp
  have first: "walkedNodes P e = pre @ node # post
        \<and> (\<forall>n \<in> set pre. \<not> rejected P e n) \<and> rejected P e node
      \<longrightarrow> (\<exists>err. parserSelectExpr P e as = Inl err
             \<and> (\<forall>s. snd (fst (parserSelectExpr_visit P (parserSelectExpr_field P e as)
                                  (node = e) node s))
                     = Some err))"
    using parserSelectExpr_rejects_first[of P e pre node post as] by blast
  have order: "e \<noteq> NilExpr
      \<longrightarrow> walkedNodes P e = e # concat (map (walkedNodes P) (WalkSubtree P e))
          \<and> mset (WalkSubtree P e) = mset (children e)"
    using walkedNodes_rec[of e P] mset_WalkSubtree[of P e] by blast
  from iff first order mset_walkedNodes[of P e] show ?thesis by blast
qed

lemma mset_fieldNameOrder: "mset (fieldNameOrder node) = mset (children node)"
  by (cases node) simp_all

lemma exampleParser_simps:
  "IsAggregate exampleParser name = (name \<in> set [''avg'', ''count'', ''max'', ''min'', ''sum''])"
  "String_Expr exampleParser = example_String_Expr"
  "String_SelectExpr exampleParser = example_String_SelectExpr"
  "String_SelectExprs exampleParser = example_String_SelectExprs"
  "WalkSubtree exampleParser node = children node"
  by (simp_all add: WalkSubtree_def exampleParser_def)

lemma exampleParserByName_simps:
  "IsAggregate exampleParserByName name = (name \<in> set [''avg'', ''count'', ''max'', ''min'', ''sum''])"
  "String_Expr exampleParserByName = example_String_Expr"
  "String_SelectExpr exampleParserByName = example_String_SelectExpr"
  "String_SelectExprs exampleParserByName = example_String_SelectExprs"
  "WalkSubtree exampleParserByName node = fieldNameOrder node"
  by (simp_all add: WalkSubtree_def exampleParserByName_def exampleParser_def mset_fieldNameOrder)

text \<open>\<open>avg(x.a) + 1\<close>, \<open>count(x.a, x.b)\<close>, \<open>max(*) AS m\<close>, \<open>a + group_concat(b)\<close>; in
  \<open>(select 1) + max(*)\<close> the subquery is met first and the error is the subquery's. In
  \<open>case (select 1) else group_concat(b) end\<close> the error is the subquery's when a CASE is
  walked Expr, Whens, Else, and the GROUP_CONCAT's when it is walked Else, Expr, Whens.\<close>

theorem parserSelectExpr_rejects_witness:
  "parserSelectExpr exampleParser
      (BinaryExpr ''+'' (aggr ''avg'' False [item (qcol ''x'' ''a'')]) (intLit ''1'')) ''''
     = Inl (''unsupported: '' @ [CHR 0x27] @ ''avg(x.a) + 1'' @ [CHR 0x27] @ ''.contain.aggregate.in.select.exprs'')
   \<and> parserSelectExpr exampleParser (aggr ''count'' False [item (qcol ''x'' ''a''), item (qcol ''x'' ''b'')]) ''''
     = Inl ''unsupported: invalid.use.of.group.function[count]''
   \<and> parserSelectExpr exampleParser (aggr ''max'' False [star]) ''m''
     = Inl (''unsupported: syntax.error.at.'' @ [CHR 0x27] @ ''m'' @ [CHR 0x27])
   \<and> parserSelectExpr exampleParser
        (BinaryExpr ''+'' (col ''a'') (GroupConcatExpr '''' [item (col ''b'')] [] '','')) ''''
     = Inl ''unsupported: group_concat.in.select.exprs''
   \<and> parserSelectExpr exampleParser
        (BinaryExpr ''+'' (SubqueryExpr (Subquery ''select 1'')) (aggr ''max'' False [star])) ''''
     = Inl ''unsupported: subqueries.in.select.exprs''
   \<and> parserSelectExpr exampleParser
        (CaseExpr (SubqueryExpr (Subquery ''select 1'')) []
           (GroupConcatExpr '''' [item (col ''b'')] [] '','')) ''''
     = Inl ''unsupported: subqueries.in.select.exprs''
   \<and> parserSelectExpr exampleParserByName
        (CaseExpr (SubqueryExpr (Subquery ''select 1'')) []
           (GroupConcatExpr '''' [item (col ''b'')] [] '','')) ''''
     = Inl ''unsupported: group_concat.in.select.exprs''"
proof -
  let ?plus = "BinaryExpr ''+'' (SubqueryExpr (Subquery ''select 1'')) (aggr ''max'' False [star])"
  let ?case = "CaseExpr (SubqueryExpr (Subquery ''select 1'')) []
                 (GroupConcatExpr '''' [item (col ''b'')] [] '','')"
  have plus: "walkedNodes exampleParser ?plus
              = [?plus] @ SubqueryExpr (Subquery ''select 1'') # [aggr ''max'' False [star]]"
    by (simp add: walkedNodes_def exampleParser_simps aggr_def star_def)
  have "\<forall>n \<in> set [?plus]. \<not> rejected exampleParser ?plus n"
    by (simp add: rejected_def)
  moreover have "rejected exampleParser ?plus (SubqueryExpr (Subquery ''select 1''))"
    by (simp add: rejected_def)
  ultimately have first: "parserSelectExpr exampleParser ?plus '''' = Inl ''unsupported: subqueries.in.select.exprs''"
    using parserSelectExpr_rejects
      [of ?plus exampleParser "''''" "[?plus]" "SubqueryExpr (Subquery ''select 1'')"
          "[aggr ''max'' False [star]]"]
      plus
    by auto
  have byName: "walkedNodes exampleParserByName ?case
              = [?case] @ GroupConcatExpr '''' [item (col ''b'')] [] '','' # [col ''b'', SubqueryExpr (Subquery ''select 1'')]"
    by (simp add: walkedNodes_def exampleParserByName_simps item_def col_def)
  have "\<forall>n \<in> set [?case]. \<not> rejected exampleParserByName ?case n"
    by (simp add: rejected_def)
  moreover have "rejected exampleParserByName ?case (GroupConcatExpr '''' [item (col ''b'')] [] '','')"
    by (simp add: rejected_def)
  ultimately have second: "parserSelectExpr exampleParserByName ?case '''' = Inl ''unsupported: group_concat.in.select.exprs''"
    using parserSelectExpr_rejects
      [of ?case exampleParserByName "''''" "[?case]" "GroupConcatExpr '''' [item (col ''b'')] [] '',''"
          "[col ''b'', SubqueryExpr (Subquery ''select 1'')]"]
      byName
    by auto
  have others:
    "parserSelectExpr exampleParser
      (BinaryExpr ''+'' (aggr ''avg'' False [item (qcol ''x'' ''a'')]) (intLit ''1'')) ''''
     = Inl (''unsupported: '' @ [CHR 0x27] @ ''avg(x.a) + 1'' @ [CHR 0x27] @ ''.contain.aggregate.in.select.exprs'')"
    "parserSelectExpr exampleParser (aggr ''count'' False [item (qcol ''x'' ''a''), item (qcol ''x'' ''b'')]) ''''
     = Inl ''unsupported: invalid.use.of.group.function[count]''"
    "parserSelectExpr exampleParser (aggr ''max'' False [star]) ''m''
     = Inl (''unsupported: syntax.error.at.'' @ [CHR 0x27] @ ''m'' @ [CHR 0x27])"
    "parserSelectExpr exampleParser
        (BinaryExpr ''+'' (col ''a'') (GroupConcatExpr '''' [item (col ''b'')] [] '','')) ''''
     = Inl ''unsupported: group_concat.in.select.exprs''"
    "parserSelectExpr exampleParser ?case '''' = Inl ''unsupported: subqueries.in.select.exprs''"
    by (simp_all add: parserSelectExpr_def parserSelectExpr_field_def exampleParser_simps
        aggr_def item_def star_def qcol_def col_def intLit_def)
  from first second others show ?thesis by simp
qed

lemma parserSelectExpr_field_spec:
  "parserSelectExpr_field P e as =
     (if as \<noteq> '''' then as
      else case e of
             ColNameExpr (ColName name q) \<Rightarrow> name
           | _ \<Rightarrow> String_SelectExpr P (AliasedExpr e as))"
proof (cases e)
  case (ColNameExpr cn)
  then show ?thesis by (cases cn) (simp add: parserSelectExpr_field_def)
qed (simp_all add: parserSelectExpr_field_def)

lemma parserSelectExpr_Inr:
  assumes "parserSelectExpr P e as = Inr t"
  shows "itemTuple P (AliasedExpr e as) t"
proof -
  from assms have "\<not> (\<exists>err. parserSelectExpr P e as = Inl err)" by simp
  then have "\<forall>(r, n) \<in> set (preorder P True [e]). \<not> violation P r n"
    unfolding parserSelectExpr_error_marked by blast
  from parserSelectExpr_accepts[OF this, of as] assms
  have t: "field t = parserSelectExpr_field P e as" "referTables t = firstSeen (seenQualifiers P e)"
    by auto
  from t(2) have "set (referTables t) = set (tableQualifiers e)" "distinct (referTables t)"
    by (simp_all add: set_firstSeen set_seenQualifiers distinct_firstSeen)
  with t show ?thesis
    using parserSelectExpr_field_spec[of P e as] by simp
qed

lemma parserSelectExpr_accepted:
  "(\<exists>t. parserSelectExpr P e as = Inr t) = accepted P (AliasedExpr e as)"
proof -
  have "(\<exists>t. parserSelectExpr P e as = Inr t) = (\<not> (\<exists>err. parserSelectExpr P e as = Inl err))"
    by (cases "parserSelectExpr P e as") simp_all
  also have "\<dots> = accepted P (AliasedExpr e as)"
    unfolding parserSelectExpr_error_iff by (auto simp: list_ex_iff)
  finally show ?thesis .
qed

lemma parserSelectExprs_loop_tuples:
  "parserSelectExprs_loop P acc exprs = Inr tuples \<Longrightarrow>
   \<exists>new. tuples = acc @ new \<and> list_all2 (itemTuple P) exprs new"
proof (induction exprs arbitrary: acc)
  case Nil
  then show ?case by simp
next
  case (Cons x exprs)
  show ?case
  proof (cases x)
    case (AliasedExpr e as)
    show ?thesis
    proof (cases "parserSelectExpr P e as")
      case (Inl err)
      with Cons.prems AliasedExpr show ?thesis by simp
    next
      case (Inr t)
      with Cons.prems AliasedExpr
      have "parserSelectExprs_loop P (acc @ [t]) exprs = Inr tuples" by simp
      from Cons.IH[OF this] obtain new where
        new: "tuples = (acc @ [t]) @ new" "list_all2 (itemTuple P) exprs new" by blast
      from parserSelectExpr_Inr[OF Inr] have "itemTuple P x t" unfolding AliasedExpr .
      with new have "tuples = acc @ (t # new) \<and> list_all2 (itemTuple P) (x # exprs) (t # new)"
        by simp
      then show ?thesis by blast
    qed
  next
    case (StarExpr tn)
    obtain name q where tn: "tn = TableName name q" by (cases tn) auto
    define t where "t = (let tuple = \<lparr>expr = StarExpr (TableName name q), field = ''*'', referTables = [],
                    aggrFuc = '''', aggrField = '''', distinct' = False\<rparr>
       in if name \<noteq> '''' then tuple\<lparr>referTables := referTables tuple @ [name]\<rparr> else tuple)"
    from Cons.prems StarExpr tn
    have "parserSelectExprs_loop P (acc @ [t]) exprs = Inr tuples" by (simp add: t_def Let_def)
    from Cons.IH[OF this] obtain new where
      new: "tuples = (acc @ [t]) @ new" "list_all2 (itemTuple P) exprs new" by blast
    have "itemTuple P x t" using StarExpr tn by (simp add: t_def)
    with new have "tuples = acc @ (t # new) \<and> list_all2 (itemTuple P) (x # exprs) (t # new)"
      by simp
    then show ?thesis by blast
  next
    case (Nextval e)
    with Cons.prems show ?thesis by simp
  qed
qed

lemma parserSelectExprs_loop_accepted:
  "(\<exists>tuples. parserSelectExprs_loop P acc exprs = Inr tuples) = (\<forall>x \<in> set exprs. accepted P x)"
proof (induction exprs arbitrary: acc)
  case Nil
  show ?case by simp
next
  case (Cons x exprs)
  show ?case
  proof (cases x)
    case (AliasedExpr e as)
    show ?thesis
    proof (cases "parserSelectExpr P e as")
      case (Inl err)
      with parserSelectExpr_accepted[of P e as] have "\<not> accepted P x" using AliasedExpr by simp
      with Inl AliasedExpr show ?thesis by simp
    next
      case (Inr t)
      with parserSelectExpr_accepted[of P e as] have "accepted P x" using AliasedExpr by simp
      with Inr AliasedExpr Cons.IH[of "acc @ [t]"] show ?thesis by simp
    qed
  next
    case (StarExpr tn)
    obtain name q where tn: "tn = TableName name q" by (cases tn) auto
    show ?thesis using StarExpr tn Cons.IH by (simp add: Let_def)
  next
    case (Nextval e)
    then show ?thesis by simp
  qed
qed

text \<open>
  C4. When \<open>parserSelectExprs\<close> succeeds, its tuples answer the select items one to one and
  in order. The tuple of an aliased item has as field the alias if there is one, else the
  column name if the expression is a column reference, else the serialized item; its
  referTables are the table qualifiers of the column references the expression contains,
  unqualified ones skipped, each once, in the order the walk first meets them. The tuple of
  a star has the field \<open>*\<close> and refers to the star's table if it has one, to nothing
  otherwise. The call succeeds exactly when every item is a star or an aliased item without
  a node to reject; a nextval item makes it fail, with no tuple returned. The walk meets the
  nodes an expression contains, each as often: the root first, then the nodes of each
  child, the children in the order of the parser package, which is any order.
\<close>

theorem parserSelectExprs_tuples:
  "(parserSelectExprs P exprs = Inr tuples \<longrightarrow> list_all2 (itemTuple P) exprs tuples)
   \<and> ((\<exists>ts. parserSelectExprs P exprs = Inr ts) = (\<forall>x \<in> set exprs. accepted P x))
   \<and> ((\<exists>e. Nextval e \<in> set exprs) \<longrightarrow> (\<exists>err. parserSelectExprs P exprs = Inl err))
   \<and> mset (walkedNodes P e) = mset (exprNodes e)
   \<and> (e \<noteq> NilExpr
      \<longrightarrow> walkedNodes P e = e # concat (map (walkedNodes P) (WalkSubtree P e))
          \<and> mset (WalkSubtree P e) = mset (children e))"
proof -
  have tuples: "parserSelectExprs P exprs = Inr tuples \<longrightarrow> list_all2 (itemTuple P) exprs tuples"
    using parserSelectExprs_loop_tuples[of P "[]" exprs tuples]
    by (auto simp: parserSelectExprs_def)
  have acc: "(\<exists>ts. parserSelectExprs P exprs = Inr ts) = (\<forall>x \<in> set exprs. accepted P x)"
    using parserSelectExprs_loop_accepted[of P "[]" exprs] by (simp add: parserSelectExprs_def)
  have nextval: "(\<exists>e. Nextval e \<in> set exprs) \<longrightarrow> (\<exists>err. parserSelectExprs P exprs = Inl err)"
  proof
    assume "\<exists>e. Nextval e \<in> set exprs"
    then obtain e where "Nextval e \<in> set exprs" by blast
    then have "\<not> (\<forall>x \<in> set exprs. accepted P x)" by force
    with acc have "\<not> (\<exists>ts. parserSelectExprs P exprs = Inr ts)" by simp
    then show "\<exists>err. parserSelectExprs P exprs = Inl err"
      by (cases "parserSelectExprs P exprs") simp_all
  qed
  have order: "e \<noteq> NilExpr
      \<longrightarrow> walkedNodes P e = e # concat (map (walkedNodes P) (WalkSubtree P e))
          \<and> mset (WalkSubtree P e) = mset (children e)"
    using walkedNodes_rec[of e P] mset_WalkSubtree[of P e] by blast
  from tuples acc nextval order mset_walkedNodes[of P e] show ?thesis by blast
qed

text \<open>The spec's select list and its five tuples; \<open>x.a + t.b + x.c + d\<close> refers to \<open>x\<close> then
  \<open>t\<close>; \<open>t.*\<close> refers to \<open>t\<close> and \<open>*\<close> to nothing; a nextval item fails the list. The item
  \<open>case z.e when x.a then t.b else y.c end\<close> refers to \<open>z, x, t, y\<close> when a CASE is walked
  Expr, Whens, Else, and to \<open>y, z, x, t\<close> when it is walked Else, Expr, Whens.\<close>

theorem parserSelectExprs_tuples_witness:
  "parserSelectExprs exampleParser exampleSelect = Inr exampleTuples
   \<and> list_all2 (itemTuple exampleParser) exampleSelect exampleTuples
   \<and> map_sum id (map summary)
        (parserSelectExprs exampleParser
           [item (BinaryExpr ''+'' (BinaryExpr ''+'' (qcol ''x'' ''a'') (qcol ''t'' ''b''))
                                   (BinaryExpr ''+'' (qcol ''x'' ''c'') (col ''d''))),
            StarExpr (TableName ''t'' ''''), star])
     = Inr [(''x.a + t.b + x.c + d'', [''x'', ''t''], '''', '''', False),
            (''*'', [''t''], '''', '''', False),
            (''*'', [], '''', '''', False)]
   \<and> parserSelectExprs exampleParser [item (col ''a''), Nextval (col ''s''), star]
     = Inl ''unsupported: nextval.in.select.exprs''
   \<and> map_sum id (map referTables) (parserSelectExprs exampleParser [item exampleCase])
     = Inr [[''z'', ''x'', ''t'', ''y'']]
   \<and> map_sum id (map referTables) (parserSelectExprs exampleParserByName [item exampleCase])
     = Inr [[''y'', ''z'', ''x'', ''t'']]
   \<and> set (tableQualifiers exampleCase) = {''t'', ''x'', ''y'', ''z''}"
proof -
  have run: "parserSelectExprs exampleParser exampleSelect = Inr exampleTuples"
    by (simp add: parserSelectExprs_def parserSelectExpr_def parserSelectExpr_field_def
        exampleParser_simps exampleSelect_def exampleTuples_def aggr_def item_def star_def
        qcol_def col_def)
  have "list_all2 (itemTuple exampleParser) exampleSelect exampleTuples"
    using parserSelectExprs_tuples[of exampleParser exampleSelect exampleTuples] run by blast
  moreover have "map_sum id (map summary)
        (parserSelectExprs exampleParser
           [item (BinaryExpr ''+'' (BinaryExpr ''+'' (qcol ''x'' ''a'') (qcol ''t'' ''b''))
                                   (BinaryExpr ''+'' (qcol ''x'' ''c'') (col ''d''))),
            StarExpr (TableName ''t'' ''''), star])
     = Inr [(''x.a + t.b + x.c + d'', [''x'', ''t''], '''', '''', False),
            (''*'', [''t''], '''', '''', False),
            (''*'', [], '''', '''', False)]"
    by (simp add: parserSelectExprs_def parserSelectExpr_def parserSelectExpr_field_def
        exampleParser_simps summary_def item_def star_def qcol_def col_def)
  moreover have "parserSelectExprs exampleParser [item (col ''a''), Nextval (col ''s''), star]
     = Inl ''unsupported: nextval.in.select.exprs''"
    using parserSelectExprs_tuples[of exampleParser "[item (col ''a''), Nextval (col ''s''), star]" "[]"]
    by (simp add: parserSelectExprs_def parserSelectExpr_def parserSelectExpr_field_def
        exampleParser_simps item_def star_def col_def)
  moreover have "map_sum id (map referTables) (parserSelectExprs exampleParser [item exampleCase])
     = Inr [[''z'', ''x'', ''t'', ''y'']]"
    by (simp add: parserSelectExprs_def parserSelectExpr_def parserSelectExpr_field_def
        exampleParser_simps exampleCase_def item_def equals_def qcol_def)
  moreover have "map_sum id (map referTables) (parserSelectExprs exampleParserByName [item exampleCase])
     = Inr [[''y'', ''z'', ''x'', ''t'']]"
    by (simp add: parserSelectExprs_def parserSelectExpr_def parserSelectExpr_field_def
        exampleParserByName_simps exampleCase_def item_def equals_def qcol_def)
  moreover have "set (tableQualifiers exampleCase) = {''t'', ''x'', ''y'', ''z''}"
    by (auto simp add: tableQualifiers_def exampleCase_def qcol_def)
  ultimately show ?thesis using run by blast
qed

end
